theory Spec2Isabelle
  imports Complex_Main "HOL-Library.AList"
begin

section \<open>Data model\<close>

text \<open>
  The services exchange loosely typed dictionaries. A ranked result is the dictionary
  \<^verbatim>\<open>{id, text, metadata, score}\<close>, which gains \<^verbatim>\<open>rrf_score\<close> after
  fusion and \<^verbatim>\<open>relevance\<close> after gating; the keys that the code reads with
  \<^verbatim>\<open>.get(key, default)\<close> are optional fields. Metadata is a dictionary from
  strings to strings, kept as an association list and read with \<open>map_of\<close>.

  A Python \<^verbatim>\<open>float\<close> is an IEEE double. Every double is a real number and doubles
  compare as the reals they are, so scores have type \<open>real\<close>. In the relevance gate and
  in the citations sums, quotients and comparisons are taken exactly. In rank fusion the
  order of the results depends on whether sums are equal, so there the rounded operations
  are parameters (\<open>float_ops\<close>): the theorems hold for the machine's arithmetic, and
  for exact arithmetic (\<open>exact_floats\<close>) as one instance.
  A Python \<^verbatim>\<open>str\<close> is a list of characters, one \<open>char\<close> per code point
  (code points below 256).
\<close>

datatype error =
    KeyError
  | IndexError
  | ZeroDivisionError
  | OverflowError
  | ValueError
  | CollaboratorError string

type_synonym metadata = "(string \<times> string) list"

record ranked =
  r_id :: string
  r_text :: string
  r_metadata :: metadata
  r_score :: "real option"
  rrf_score :: "real option"
  relevance :: "real option"

text \<open>
  The fields of \<^verbatim>\<open>config.Settings\<close> that the modelled services read, with their
  defaults. \<open>cfg_chunk_size\<close> and \<open>cfg_chunk_overlap\<close> are the settings
  \<^verbatim>\<open>chunk_size\<close> and \<^verbatim>\<open>chunk_overlap\<close>.
\<close>

record settings =
  llm_provider :: string
  crag_relevance_threshold :: real
  rrf_k :: int
  cfg_chunk_size :: int
  cfg_chunk_overlap :: int

definition default_settings :: settings where
  "default_settings =
     \<lparr> llm_provider = ''ollama'',
       crag_relevance_threshold = 0.20,
       rrf_k = 60,
       cfg_chunk_size = 512,
       cfg_chunk_overlap = 64 \<rparr>"

section \<open>Reciprocal rank fusion (services/hybrid\_search.py)\<close>

text \<open>
  The float operations of the loop: \<open>f_add x y\<close> is the double \<^verbatim>\<open>x + y\<close> and
  \<open>f_recip n\<close> the double \<^verbatim>\<open>1.0 / n\<close> for an integer \<open>n\<close> that is not zero and
  converts to a double. The conversion of an integer \<open>n\<close> to a double raises
  \<^verbatim>\<open>OverflowError\<close> when \<open>n\<close> rounds beyond the largest double, that is when
  \<open>\<bar>n\<bar> \<ge> 2^1024 - 2^970\<close>.
\<close>

record float_ops =
  f_add :: "real \<Rightarrow> real \<Rightarrow> real"
  f_recip :: "int \<Rightarrow> real"

definition exact_floats :: float_ops where
  "exact_floats = \<lparr> f_add = (\<lambda>x y. x + y), f_recip = (\<lambda>n. 1 / real_of_int n) \<rparr>"

definition float_overflow :: int where
  "float_overflow = 2 ^ 1024 - 2 ^ 970"

text \<open>
  The two dictionaries \<^verbatim>\<open>rrf_scores\<close> and \<^verbatim>\<open>docs\<close> keep insertion order, so
  they are association lists: \<open>AList.update\<close> overwrites a present key in place and
  appends an absent one, as a Python \<^verbatim>\<open>dict\<close> does.

  \<open>rrf_inner\<close> is the inner loop \<^verbatim>\<open>for rank, doc in enumerate(result_list, start=1)\<close>.
  The float division \<^verbatim>\<open>1.0 / (k + rank)\<close> converts the integer \<^verbatim>\<open>k + rank\<close> to a
  double, which raises \<^verbatim>\<open>OverflowError\<close> out of range, and raises
  \<^verbatim>\<open>ZeroDivisionError\<close> when \<^verbatim>\<open>k + rank = 0\<close>. The new score is the float sum of
  the score so far (\<^verbatim>\<open>0.0\<close> for a new id) and the quotient.
\<close>

fun rrf_inner ::
  "float_ops \<Rightarrow> int \<Rightarrow> nat \<Rightarrow> ranked list
     \<Rightarrow> (string \<times> real) list \<times> (string \<times> ranked) list
     \<Rightarrow> error + (string \<times> real) list \<times> (string \<times> ranked) list" where
  "rrf_inner fl k rank [] acc = Inr acc"
| "rrf_inner fl k rank (doc # rest) (rrf_scores, docs) =
     (let doc_id = r_id doc in
      if float_overflow \<le> \<bar>k + int rank\<bar> then Inl OverflowError
      else if k + int rank = 0 then Inl ZeroDivisionError
      else
        let rrf_scores' =
              AList.update doc_id
                (f_add fl (case map_of rrf_scores doc_id of None \<Rightarrow> 0 | Some s \<Rightarrow> s)
                   (f_recip fl (k + int rank)))
                rrf_scores;
            docs' = (if map_of docs doc_id = None then docs @ [(doc_id, doc)] else docs)
        in rrf_inner fl k (Suc rank) rest (rrf_scores', docs'))"

text \<open>The outer loop \<^verbatim>\<open>for result_list in result_lists\<close>.\<close>

fun rrf_outer ::
  "float_ops \<Rightarrow> int \<Rightarrow> ranked list list
     \<Rightarrow> (string \<times> real) list \<times> (string \<times> ranked) list
     \<Rightarrow> error + (string \<times> real) list \<times> (string \<times> ranked) list" where
  "rrf_outer fl k [] acc = Inr acc"
| "rrf_outer fl k (result_list # rest) acc =
     (case rrf_inner fl k 1 result_list acc of
        Inl e \<Rightarrow> Inl e
      | Inr acc' \<Rightarrow> rrf_outer fl k rest acc')"

text \<open>
  The final loop: \<^verbatim>\<open>entry = docs[doc_id].copy(); entry["rrf_score"] = rrf_scores[doc_id]\<close>.
  A subscript on a missing key raises \<^verbatim>\<open>KeyError\<close>.
\<close>

fun rrf_results ::
  "(string \<times> real) list \<Rightarrow> (string \<times> ranked) list \<Rightarrow> string list \<Rightarrow> error + ranked list" where
  "rrf_results rrf_scores docs [] = Inr []"
| "rrf_results rrf_scores docs (doc_id # rest) =
     (case map_of docs doc_id of
        None \<Rightarrow> Inl KeyError
      | Some d \<Rightarrow>
          (case map_of rrf_scores doc_id of
             None \<Rightarrow> Inl KeyError
           | Some s \<Rightarrow>
               (case rrf_results rrf_scores docs rest of
                  Inl e \<Rightarrow> Inl e
                | Inr results \<Rightarrow> Inr (d\<lparr>rrf_score := Some s\<rparr> # results))))"

text \<open>
  \<^verbatim>\<open>sorted(rrf_scores, key=lambda x: rrf_scores[x], reverse=True)\<close> iterates the keys in
  insertion order and is stable also with \<^verbatim>\<open>reverse=True\<close>. The key of an id is the
  value stored beside it, so the items are sorted on their negated second component with
  the stable insertion sort \<open>sort_key\<close>, and the ids read off.
\<close>

definition sorted_ids_desc :: "(string \<times> real) list \<Rightarrow> string list" where
  "sorted_ids_desc rrf_scores = map fst (sort_key (\<lambda>p. - snd p) rrf_scores)"

definition reciprocal_rank_fusion ::
  "float_ops \<Rightarrow> settings \<Rightarrow> ranked list list \<Rightarrow> int option \<Rightarrow> error + ranked list" where
  "reciprocal_rank_fusion fl st result_lists k_arg =
     (let k = (case k_arg of None \<Rightarrow> rrf_k st | Some k \<Rightarrow> k) in
      case rrf_outer fl k result_lists ([], []) of
        Inl e \<Rightarrow> Inl e
      | Inr (rrf_scores, docs) \<Rightarrow>
          rrf_results rrf_scores docs (sorted_ids_desc rrf_scores))"

text \<open>
  Vocabulary for stating what fusion computes. \<open>all_ids\<close> lists the ids in the order
  the loops meet them, \<open>first_seen\<close> keeps the first occurrence of each, and
  \<open>first_doc\<close> is the first entry carrying an id (in the first list that has one).
  \<open>rank_terms k r l i\<close> lists the integers \<open>k + rank\<close> of the occurrences of the id
  \<open>i\<close> in the list \<open>l\<close>, whose first rank is \<open>r\<close>, and \<open>rrf_terms\<close> lists them over
  all the lists, in the order of the loops. \<open>rrf_total\<close> is the accumulated score of an
  id: the float sum, taken from \<open>0.0\<close> in that order, of the float quotients
  \<open>1.0 / (k + rank)\<close>. \<open>rrf_safe\<close> says that every \<open>k + rank\<close> of the input is
  not zero and converts to a double.
\<close>

fun first_seen :: "'a list \<Rightarrow> 'a list" where
  "first_seen [] = []"
| "first_seen (x # xs) = x # removeAll x (first_seen xs)"

definition all_ids :: "ranked list list \<Rightarrow> string list" where
  "all_ids ls = concat (map (map r_id) ls)"

definition first_doc :: "ranked list list \<Rightarrow> string \<Rightarrow> ranked option" where
  "first_doc ls i = find (\<lambda>d. r_id d = i) (concat ls)"

definition rank_terms :: "int \<Rightarrow> nat \<Rightarrow> ranked list \<Rightarrow> string \<Rightarrow> int list" where
  "rank_terms k r l i =
     map (\<lambda>p. k + int (fst p)) [p \<leftarrow> enumerate r l. r_id (snd p) = i]"

definition rrf_terms :: "int \<Rightarrow> ranked list list \<Rightarrow> string \<Rightarrow> int list" where
  "rrf_terms k ls i = concat (map (\<lambda>l. rank_terms k 1 l i) ls)"

definition rrf_total :: "float_ops \<Rightarrow> int \<Rightarrow> ranked list list \<Rightarrow> string \<Rightarrow> real" where
  "rrf_total fl k ls i = foldl (f_add fl) 0 (map (f_recip fl) (rrf_terms k ls i))"

definition rrf_safe :: "int \<Rightarrow> ranked list list \<Rightarrow> bool" where
  "rrf_safe k ls =
     (\<forall>l \<in> set ls. \<forall>r \<in> {1..length l}. k + int r \<noteq> 0 \<and> \<bar>k + int r\<bar> < float_overflow)"

text \<open>Bookkeeping for the proofs: the keys and the values of an insertion-ordered dictionary.\<close>

definition add_key :: "'a \<Rightarrow> 'a list \<Rightarrow> 'a list" where
  "add_key x ks = (if x \<in> set ks then ks else ks @ [x])"

definition score_of :: "(string \<times> real) list \<Rightarrow> string \<Rightarrow> real" where
  "score_of S i = (case map_of S i of None \<Rightarrow> 0 | Some s \<Rightarrow> s)"

text \<open>A result dictionary with the four keys the retrieval services produce.\<close>

definition mk_ranked :: "string \<Rightarrow> string \<Rightarrow> metadata \<Rightarrow> real \<Rightarrow> ranked" where
  "mk_ranked i t m s =
     \<lparr> r_id = i, r_text = t, r_metadata = m, r_score = Some s,
       rrf_score = None, relevance = None \<rparr>"

section \<open>Embedding service (services/embeddings.py)\<close>

text \<open>
  The sentence-transformer model is an external collaborator: \<open>encode\<close> stands for
  loading it and calling \<^verbatim>\<open>self._model.encode(texts, normalize_embeddings=True).tolist()\<close>,
  and returns the vectors or the exception raised. \<^verbatim>\<open>np.dot\<close> of two vectors of
  different lengths raises \<^verbatim>\<open>ValueError\<close>.
\<close>

type_synonym encoder = "string list \<Rightarrow> error + real list list"

definition embed :: "encoder \<Rightarrow> string list \<Rightarrow> error + real list list" where
  "embed encode texts = encode texts"

definition embed_single :: "encoder \<Rightarrow> string \<Rightarrow> error + real list" where
  "embed_single encode txt =
     (case embed encode [txt] of
        Inl e \<Rightarrow> Inl e
      | Inr vectors \<Rightarrow> (case vectors of [] \<Rightarrow> Inl IndexError | v # _ \<Rightarrow> Inr v))"

definition cosine_similarity :: "real list \<Rightarrow> real list \<Rightarrow> error + real" where
  "cosine_similarity vec_a vec_b =
     (if length vec_a \<noteq> length vec_b then Inl ValueError
      else Inr (\<Sum>(a, b) \<leftarrow> zip vec_a vec_b. a * b))"

section \<open>Relevance gate (services/crag.py)\<close>

text \<open>
  The loop of \<^verbatim>\<open>CRAGEvaluator.evaluate\<close> over \<^verbatim>\<open>retrieved_chunks\<close>. It writes
  \<^verbatim>\<open>chunk["relevance"]\<close> into every chunk it visits, so it returns the chunks as the
  loop leaves them together with the list \<^verbatim>\<open>passing\<close>. An exception of the
  collaborator leaves the loop at once, nothing in \<^verbatim>\<open>evaluate\<close> catches it.
\<close>

fun evaluate_loop ::
  "encoder \<Rightarrow> real list \<Rightarrow> real \<Rightarrow> ranked list \<Rightarrow> error + ranked list \<times> ranked list" where
  "evaluate_loop encode query_embedding threshold [] = Inr ([], [])"
| "evaluate_loop encode query_embedding threshold (chunk # rest) =
     (let rrf = (case rrf_score chunk of None \<Rightarrow> 0 | Some s \<Rightarrow> s) in
      case embed_single encode (r_text chunk) of
        Inl e \<Rightarrow> Inl e
      | Inr chunk_embedding \<Rightarrow>
          (case cosine_similarity query_embedding chunk_embedding of
             Inl e \<Rightarrow> Inl e
           | Inr direct_similarity \<Rightarrow>
               (let combined = direct_similarity + (if rrf > 0.01 then 0.05 else 0);
                    chunk' = chunk\<lparr>relevance := Some combined\<rparr>;
                    is_pass = (combined \<ge> threshold)
                in case evaluate_loop encode query_embedding threshold rest of
                     Inl e \<Rightarrow> Inl e
                   | Inr (chunks', passing) \<Rightarrow>
                       Inr (chunk' # chunks', if is_pass then chunk' # passing else passing))))"

text \<open>
  \<^verbatim>\<open>passing.sort(key=lambda x: x["relevance"], reverse=True)\<close>: a stable sort,
  descending; the subscript raises \<^verbatim>\<open>KeyError\<close> on a chunk without the key.
\<close>

definition sort_by_relevance_desc :: "ranked list \<Rightarrow> error + ranked list" where
  "sort_by_relevance_desc passing =
     (if \<exists>c \<in> set passing. relevance c = None then Inl KeyError
      else Inr (sort_key (\<lambda>c. - the (relevance c)) passing))"

text \<open>
  \<^verbatim>\<open>evaluate\<close> returns the pair \<^verbatim>\<open>(crag_status, filtered_chunks)\<close>; the model
  pairs it with the final contents of the argument list, which the call mutates.
  \<^verbatim>\<open>threshold or settings.crag_relevance_threshold\<close> takes the setting when the
  argument is \<^verbatim>\<open>None\<close> or is falsy, that is \<^verbatim>\<open>0.0\<close>.
\<close>

definition evaluate ::
  "settings \<Rightarrow> encoder \<Rightarrow> string \<Rightarrow> ranked list \<Rightarrow> real option
     \<Rightarrow> error + (string \<times> ranked list) \<times> ranked list" where
  "evaluate st encode query retrieved_chunks threshold_arg =
     (if retrieved_chunks = [] then Inr ((''insufficient'', []), retrieved_chunks)
      else
        let threshold =
              (case threshold_arg of
                 None \<Rightarrow> crag_relevance_threshold st
               | Some t \<Rightarrow> if t = 0 then crag_relevance_threshold st else t)
        in case embed_single encode query of
             Inl e \<Rightarrow> Inl e
           | Inr query_embedding \<Rightarrow>
               (case evaluate_loop encode query_embedding threshold retrieved_chunks of
                  Inl e \<Rightarrow> Inl e
                | Inr (chunks', passing) \<Rightarrow>
                    if passing = [] then Inr ((''insufficient'', []), chunks')
                    else
                      let ratio = real (length passing) / real (length retrieved_chunks);
                          status = (if ratio \<ge> 0.5 then ''grounded'' else ''partial'')
                      in (case sort_by_relevance_desc passing of
                            Inl e \<Rightarrow> Inl e
                          | Inr sorted_passing \<Rightarrow> Inr ((status, sorted_passing), chunks'))))"

text \<open>
  Vocabulary for the gate: the relevance \<^verbatim>\<open>combined\<close> that the loop computes for one
  chunk, as a function of the query and the chunk, and an embedding collaborator for
  examples, which embeds a text as the one-dimensional vector a table gives it.
\<close>

definition combined_relevance :: "encoder \<Rightarrow> string \<Rightarrow> ranked \<Rightarrow> error + real" where
  "combined_relevance encode query chunk =
     (case embed_single encode query of
        Inl e \<Rightarrow> Inl e
      | Inr query_embedding \<Rightarrow>
          (case embed_single encode (r_text chunk) of
             Inl e \<Rightarrow> Inl e
           | Inr chunk_embedding \<Rightarrow>
               (case cosine_similarity query_embedding chunk_embedding of
                  Inl e \<Rightarrow> Inl e
                | Inr direct_similarity \<Rightarrow>
                    Inr (direct_similarity
                         + (if (case rrf_score chunk of None \<Rightarrow> 0 | Some s \<Rightarrow> s) > 0.01
                            then 0.05 else 0)))))"

definition table_encoder :: "(string \<times> real) list \<Rightarrow> encoder" where
  "table_encoder tab texts =
     (if \<forall>t \<in> set texts. map_of tab t \<noteq> None
      then Inr (map (\<lambda>t. [the (map_of tab t)]) texts)
      else Inl (CollaboratorError ''embedding model unavailable''))"

definition set_relevance :: "(ranked \<Rightarrow> real) \<Rightarrow> ranked \<Rightarrow> ranked" where
  "set_relevance comb c = c\<lparr>relevance := Some (comb c)\<rparr>"

section \<open>Text segmenter (services/ingestion.py)\<close>

text \<open>
  Python string primitives. \<open>isspace\<close> is the whitespace that \<^verbatim>\<open>str.strip()\<close>
  removes, for code points below 256: tab, line feed, vertical tab, form feed, carriage
  return, the separators \<open>0x1C\<close> to \<open>0x1F\<close>, space, \<open>0x85\<close> and \<open>0xA0\<close>.
  \<open>slice_to s i\<close> is \<^verbatim>\<open>s[:i]\<close> and \<open>slice_from s i\<close> is \<^verbatim>\<open>s[i:]\<close>, a negative
  index counting from the end. \<open>rfind s sub e\<close> is \<^verbatim>\<open>s.rfind(sub, 0, e)\<close>: the highest
  index at which \<open>sub\<close> occurs wholly inside \<^verbatim>\<open>s[0:e]\<close>, or \<open>-1\<close>.
\<close>

definition isspace :: "char \<Rightarrow> bool" where
  "isspace c =
     ((of_char c :: nat) \<in> {0x09, 0x0A, 0x0B, 0x0C, 0x0D, 0x1C, 0x1D, 0x1E, 0x1F, 0x20, 0x85, 0xA0})"

definition strip :: "string \<Rightarrow> string" where
  "strip s = rev (dropWhile isspace (rev (dropWhile isspace s)))"

definition slice_to :: "'a list \<Rightarrow> int \<Rightarrow> 'a list" where
  "slice_to s i = (if i < 0 then take (nat (int (length s) + i)) s else take (nat i) s)"

definition slice_from :: "'a list \<Rightarrow> int \<Rightarrow> 'a list" where
  "slice_from s i = (if i < 0 then drop (nat (int (length s) + i)) s else drop (nat i) s)"

fun rfind_from :: "string \<Rightarrow> string \<Rightarrow> nat \<Rightarrow> int" where
  "rfind_from s sub 0 = (if take (length sub) s = sub then 0 else - 1)"
| "rfind_from s sub (Suc i) =
     (if take (length sub) (drop (Suc i) s) = sub then int (Suc i) else rfind_from s sub i)"

definition rfind :: "string \<Rightarrow> string \<Rightarrow> int \<Rightarrow> int" where
  "rfind s sub e =
     (let n = int (length s);
          e' = (if e < 0 then max 0 (e + n) else min e n)
      in if e' < int (length sub) then - 1
         else rfind_from s sub (nat (e' - int (length sub))))"

text \<open>
  The list \<^verbatim>\<open>boundaries = ["\n\n", "\n", ". ", " ", ""]\<close> and the inner loop over it,
  which leaves \<^verbatim>\<open>split_idx\<close>: the end of the rightmost occurrence of the first
  boundary that occurs in the window, or \<^verbatim>\<open>chunk_size\<close> at the empty boundary (the
  hard cut). \<^verbatim>\<open>split_idx\<close> starts as \<open>-1\<close>.
\<close>

definition boundaries :: "string list" where
  "boundaries = [[CHR 0x0A, CHR 0x0A], [CHR 0x0A], ''. '', '' '', '''']"

fun find_split :: "string list \<Rightarrow> string \<Rightarrow> int \<Rightarrow> int" where
  "find_split [] text_to_process chunk_size = - 1"
| "find_split (b # bs) text_to_process chunk_size =
     (if b = [] then chunk_size
      else
        let last_b_idx = rfind text_to_process b chunk_size in
        if last_b_idx \<noteq> - 1 then last_b_idx + int (length b)
        else find_split bs text_to_process chunk_size)"

text \<open>
  The \<^verbatim>\<open>while len(text_to_process) > chunk_size\<close> loop. Nothing in the source bounds
  the number of its iterations, so the model counts them against a fuel: \<open>None\<close> means
  that the loop is still running after \<open>fuel\<close> iterations.
\<close>

fun split_loop :: "nat \<Rightarrow> int \<Rightarrow> int \<Rightarrow> string \<Rightarrow> string list \<Rightarrow> string list option" where
  "split_loop fuel chunk_size overlap text_to_process chunks =
     (if int (length text_to_process) > chunk_size then
        (case fuel of
           0 \<Rightarrow> None
         | Suc fuel' \<Rightarrow>
             let split_idx = find_split boundaries text_to_process chunk_size;
                 chunk = strip (slice_to text_to_process split_idx);
                 chunks' = (if chunk \<noteq> [] then chunks @ [chunk] else chunks)
             in split_loop fuel' chunk_size overlap
                  (slice_from text_to_process (max 0 (split_idx - overlap))) chunks')
      else Some (if strip text_to_process \<noteq> [] then chunks @ [strip text_to_process]
                 else chunks))"

definition recursive_split :: "nat \<Rightarrow> string \<Rightarrow> int \<Rightarrow> int \<Rightarrow> string list option" where
  "recursive_split fuel txt chunk_size overlap =
     (if txt = [] \<or> strip txt = [] then Some []
      else if int (length txt) \<le> chunk_size then Some [strip txt]
      else split_loop fuel chunk_size overlap txt [])"

section \<open>Lexical index (services/bm25\_store.py)\<close>

text \<open>
  \<^verbatim>\<open>ingestion.Chunk\<close>, with its fields prefixed by \<open>ch_\<close>.
\<close>

record chunk =
  ch_id :: string
  ch_document_id :: string
  ch_filename :: string
  ch_text :: string
  ch_page_number :: "int option"
  ch_index :: int
  ch_metadata :: metadata

text \<open>
  What the index calls outside the repository: the regular expression engine and
  \<^verbatim>\<open>str.lower\<close> inside \<^verbatim>\<open>_tokenize\<close>, and the package \<^verbatim>\<open>rank_bm25\<close>, whose
  constructor \<^verbatim>\<open>BM25Okapi(tokenized)\<close> returns a model or raises and whose
  \<^verbatim>\<open>get_scores\<close> returns one score per document of the model.
\<close>

record 'm bm25_lib =
  py_lower :: "string \<Rightarrow> string"
  find_words :: "string \<Rightarrow> string list"
  bm25_okapi :: "string list list \<Rightarrow> error + 'm"
  get_scores :: "'m \<Rightarrow> string list \<Rightarrow> real list"

definition stop_words :: "string list" where
  "stop_words =
     [''de'', ''la'', ''el'', ''en'', ''y'', ''a'', ''los'', ''las'', ''un'', ''una'', ''que'',
      ''es'', ''del'']"

definition tokenize :: "'m bm25_lib \<Rightarrow> string \<Rightarrow> string list" where
  "tokenize lib txt =
     [t \<leftarrow> find_words lib (py_lower lib txt). t \<notin> set stop_words \<and> length t > 1]"

text \<open>
  The state of a \<^verbatim>\<open>BM25Store\<close>: the three lists, the scoring model, and the contents
  of the pickle file at \<^verbatim>\<open>settings.bm25_index_path\<close>. The file is missing, or
  \<^verbatim>\<open>pickle.load\<close> raises on it, or it holds the dictionary of three lists that
  \<^verbatim>\<open>_save\<close> writes. Writing the file is taken to succeed.
\<close>

datatype index_file =
    Missing
  | Corrupt
  | Saved "string list" "string list" "metadata list"

record 'm bm25_store =
  chunk_ids :: "string list"
  chunk_texts :: "string list"
  chunk_metadatas :: "metadata list"
  bm25 :: "'m option"
  index_file :: index_file

text \<open>
  A method returns \<^verbatim>\<open>None\<close> or raises, and leaves a state either way: the result is
  the exception raised, if any, and the state.
\<close>

definition save :: "'m bm25_store \<Rightarrow> 'm bm25_store" where
  "save s = s\<lparr>index_file := Saved (chunk_ids s) (chunk_texts s) (chunk_metadatas s)\<rparr>"

definition rebuild_bm25 :: "'m bm25_lib \<Rightarrow> 'm bm25_store \<Rightarrow> error option \<times> 'm bm25_store" where
  "rebuild_bm25 lib s =
     (if chunk_texts s = [] then (None, s\<lparr>bm25 := None\<rparr>)
      else
        (case bm25_okapi lib (map (tokenize lib) (chunk_texts s)) of
           Inl e \<Rightarrow> (Some e, s)
         | Inr m \<Rightarrow> (None, s\<lparr>bm25 := Some m\<rparr>)))"

text \<open>
  \<^verbatim>\<open>_load\<close> catches every exception of its body, so it always returns; the three
  assignments come before the rebuild and stay when the rebuild raises.
\<close>

definition load :: "'m bm25_lib \<Rightarrow> 'm bm25_store \<Rightarrow> 'm bm25_store" where
  "load lib s =
     (case index_file s of
        Missing \<Rightarrow> s
      | Corrupt \<Rightarrow> s
      | Saved ids texts metadatas \<Rightarrow>
          snd (rebuild_bm25 lib
                 (s\<lparr>chunk_ids := ids, chunk_texts := texts, chunk_metadatas := metadatas\<rparr>)))"

definition bm25_init :: "'m bm25_lib \<Rightarrow> index_file \<Rightarrow> 'm bm25_store" where
  "bm25_init lib file =
     load lib \<lparr> chunk_ids = [], chunk_texts = [], chunk_metadatas = [], bm25 = None,
                index_file = file \<rparr>"

fun append_chunks :: "'m bm25_store \<Rightarrow> chunk list \<Rightarrow> 'm bm25_store" where
  "append_chunks s [] = s"
| "append_chunks s (c # chunks) =
     append_chunks
       (s\<lparr>chunk_ids := chunk_ids s @ [ch_id c],
          chunk_texts := chunk_texts s @ [ch_text c],
          chunk_metadatas := chunk_metadatas s @ [ch_metadata c]\<rparr>)
       chunks"

definition add_chunks ::
  "'m bm25_lib \<Rightarrow> 'm bm25_store \<Rightarrow> chunk list \<Rightarrow> error option \<times> 'm bm25_store" where
  "add_chunks lib s chunks =
     (case rebuild_bm25 lib (append_chunks s chunks) of
        (Some e, s') \<Rightarrow> (Some e, s')
      | (None, s') \<Rightarrow> (None, save s'))"

text \<open>
  \<^verbatim>\<open>[xs[i] for i in indices]\<close>: a subscript out of range raises \<^verbatim>\<open>IndexError\<close>.
\<close>

definition select :: "'a list \<Rightarrow> nat list \<Rightarrow> error + 'a list" where
  "select xs indices =
     (if \<forall>i \<in> set indices. i < length xs then Inr (map (\<lambda>i. xs ! i) indices)
      else Inl IndexError)"

definition delete_document ::
  "'m bm25_lib \<Rightarrow> 'm bm25_store \<Rightarrow> string \<Rightarrow> error option \<times> 'm bm25_store" where
  "delete_document lib s doc_id =
     (let indices_to_keep =
            map fst [(i, meta) \<leftarrow> enumerate 0 (chunk_metadatas s).
                       map_of meta ''document_id'' \<noteq> Some doc_id]
      in if length indices_to_keep = length (chunk_ids s) then (None, s)
         else
           (case select (chunk_ids s) indices_to_keep of
              Inl e \<Rightarrow> (Some e, s)
            | Inr ids \<Rightarrow>
                (let s1 = s\<lparr>chunk_ids := ids\<rparr> in
                 case select (chunk_texts s1) indices_to_keep of
                   Inl e \<Rightarrow> (Some e, s1)
                 | Inr texts \<Rightarrow>
                     (let s2 = s1\<lparr>chunk_texts := texts\<rparr> in
                      case select (chunk_metadatas s2) indices_to_keep of
                        Inl e \<Rightarrow> (Some e, s2)
                      | Inr metadatas \<Rightarrow>
                          (case rebuild_bm25 lib (s2\<lparr>chunk_metadatas := metadatas\<rparr>) of
                             (Some e, s') \<Rightarrow> (Some e, s')
                           | (None, s') \<Rightarrow> (None, save s'))))))"

definition rebuild_from_store ::
  "'m bm25_lib \<Rightarrow> 'm bm25_store \<Rightarrow> ranked list \<Rightarrow> error option \<times> 'm bm25_store" where
  "rebuild_from_store lib s all_chunks =
     (case rebuild_bm25 lib
             (s\<lparr>chunk_ids := map r_id all_chunks,
                chunk_texts := map r_text all_chunks,
                chunk_metadatas := map r_metadata all_chunks\<rparr>) of
        (Some e, s') \<Rightarrow> (Some e, s')
      | (None, s') \<Rightarrow> (None, save s'))"




text \<open>
  Vocabulary for the index: the sequences are \<open>aligned\<close> when they have one length, and
  then \<open>entries\<close> lists the triples (id, text, metadata) they hold, in order; a file is
  aligned when the lists it holds are. \<open>reachable\<close> are the states a store can be in:
  constructed over a missing or unreadable file, changed by a method, or constructed again
  over the file a reachable state left (a restart).
\<close>

definition aligned :: "'m bm25_store \<Rightarrow> bool" where
  "aligned s =
     (length (chunk_ids s) = length (chunk_texts s)
      \<and> length (chunk_texts s) = length (chunk_metadatas s))"

definition file_aligned :: "index_file \<Rightarrow> bool" where
  "file_aligned f =
     (case f of
        Saved ids texts metadatas \<Rightarrow>
          length ids = length texts \<and> length texts = length metadatas
      | _ \<Rightarrow> True)"

definition entries :: "'m bm25_store \<Rightarrow> (string \<times> string \<times> metadata) list" where
  "entries s = zip (chunk_ids s) (zip (chunk_texts s) (chunk_metadatas s))"

definition of_document :: "string \<Rightarrow> metadata \<Rightarrow> bool" where
  "of_document doc_id meta = (map_of meta ''document_id'' = Some doc_id)"

text \<open>
  \<open>file_step s s'\<close>: the file of \<open>s'\<close> is the file of \<open>s\<close>, or holds the lists of \<open>s'\<close>.
\<close>

definition file_step :: "'m bm25_store \<Rightarrow> 'm bm25_store \<Rightarrow> bool" where
  "file_step s s' =
     (index_file s' = index_file s
      \<or> index_file s' = Saved (chunk_ids s') (chunk_texts s') (chunk_metadatas s'))"

text \<open>A state is \<open>persisted\<close> when the file holds exactly its three lists.\<close>

definition persisted :: "'m bm25_store \<Rightarrow> bool" where
  "persisted s = (index_file s = Saved (chunk_ids s) (chunk_texts s) (chunk_metadatas s))"

inductive reachable :: "'m bm25_lib \<Rightarrow> 'm bm25_store \<Rightarrow> bool" for lib :: "'m bm25_lib" where
  fresh: "reachable lib (bm25_init lib Missing)"
| unreadable: "reachable lib (bm25_init lib Corrupt)"
| added: "reachable lib s \<Longrightarrow> reachable lib (snd (add_chunks lib s chunks))"
| deleted: "reachable lib s \<Longrightarrow> reachable lib (snd (delete_document lib s doc_id))"
| rebuilt: "reachable lib s \<Longrightarrow> reachable lib (snd (rebuild_from_store lib s all_chunks))"
| restarted: "reachable lib s \<Longrightarrow> reachable lib (bm25_init lib (index_file s))"

text \<open>
  A scoring library for examples: a text is one word, and a document scores 1 when it is
  the query and 0 otherwise.
\<close>

definition toy_lib :: "(string list list) bm25_lib" where
  "toy_lib =
     \<lparr> py_lower = (\<lambda>t. t),
       find_words = (\<lambda>t. [t]),
       bm25_okapi = (\<lambda>docs. Inr docs),
       get_scores = (\<lambda>docs q. map (\<lambda>d. if set d \<inter> set q \<noteq> {} then 1 else 0) docs) \<rparr>"

definition mk_chunk :: "string \<Rightarrow> string \<Rightarrow> string \<Rightarrow> chunk" where
  "mk_chunk cid doc t =
     \<lparr> ch_id = cid, ch_document_id = doc, ch_filename = ''f.md'', ch_text = t,
       ch_page_number = None, ch_index = 0,
       ch_metadata = [(''document_id'', doc), (''filename'', ''f.md''),
                      (''collection_name'', ''default''), (''page_number'', ''unknown'')] \<rparr>"

definition toy_chunks :: "chunk list" where
  "toy_chunks =
     [mk_chunk ''c1'' ''D'' ''alpha'', mk_chunk ''c2'' ''E'' ''beta'',
      mk_chunk ''c3'' ''D'' ''beta'']"

definition toy_store :: "(string list list) bm25_store" where
  "toy_store = snd (add_chunks toy_lib (bm25_init toy_lib Missing) toy_chunks)"




section \<open>Hybrid search orchestrator (services/hybrid\_search.py)\<close>

text \<open>
  The two fetches are calls to the singletons \<^verbatim>\<open>vector_store\<close> and \<^verbatim>\<open>bm25_store\<close>:
  functions from the query, the collection filter and \<^verbatim>\<open>top_k\<close> to a list of results
  or an exception (the lexical one is \<open>bm25_search\<close> on the current index). The model
  returns the calls it issued, in order, beside the result.
\<close>

type_synonym fetcher = "string \<Rightarrow> string option \<Rightarrow> int \<Rightarrow> error + ranked list"

datatype fetch_call =
    SemanticSearch string "string option" int
  | LexicalSearch string "string option" int

definition hybrid_search ::
  "float_ops \<Rightarrow> settings \<Rightarrow> fetcher \<Rightarrow> fetcher \<Rightarrow> string \<Rightarrow> string option \<Rightarrow> int
     \<Rightarrow> fetch_call list \<times> (error + ranked list)" where
  "hybrid_search fl st vector_search lexical_search query collection_name top_k =
     (let fetch_k = max (top_k * 3) 15 in
      case vector_search query collection_name fetch_k of
        Inl e \<Rightarrow> ([SemanticSearch query collection_name fetch_k], Inl e)
      | Inr semantic_results \<Rightarrow>
          (case lexical_search query collection_name fetch_k of
             Inl e \<Rightarrow>
               ([SemanticSearch query collection_name fetch_k,
                 LexicalSearch query collection_name fetch_k], Inl e)
           | Inr bm25_results \<Rightarrow>
               ([SemanticSearch query collection_name fetch_k,
                 LexicalSearch query collection_name fetch_k],
                if semantic_results = [] \<and> bm25_results = [] then Inr []
                else
                  (case reciprocal_rank_fusion fl st
                          [l \<leftarrow> [semantic_results, bm25_results]. l \<noteq> []] None of
                     Inl e \<Rightarrow> Inl e
                   | Inr fused \<Rightarrow> Inr (slice_to fused top_k)))))"

section \<open>Answer generation (services/generator.py)\<close>

text \<open>
  \<^verbatim>\<open>models.schemas.Citation\<close>, with its fields prefixed by \<open>cit_\<close>.
\<close>

record citation =
  cit_document_id :: string
  cit_filename :: string
  cit_chunk_text :: string
  cit_page_number :: "int option"
  cit_relevance_score :: real

text \<open>
  The string constants of the module. Their characters outside ASCII are written as
  their UTF-8 bytes; the strings only travel to the language model and to the caller.
\<close>

definition INSUFFICIENT_RESPONSE :: string where
  "INSUFFICIENT_RESPONSE =
     ''No tengo informaci'' @ [CHR 0xC3, CHR 0xB3] @
     ''n suficiente en los documentos proporcionados para responder'' @
     '' esta pregunta con certeza. Por favor, sube documentos que c'' @
     ''ontengan informaci'' @ [CHR 0xC3, CHR 0xB3] @ ''n sobre este tema.''"

definition SYSTEM_PROMPT :: string where
  "SYSTEM_PROMPT =
     ''Eres un asistente especializado en an'' @ [CHR 0xC3, CHR 0xA1] @
     ''lisis de documentos. '' @ [CHR 0x0A] @ ''Responde '' @ [CHR 0xC3, CHR 0x9A] @
     ''NICAMENTE bas'' @ [CHR 0xC3, CHR 0xA1] @
     ''ndote en los fragmentos de documentos proporcionados en el c'' @ ''ontexto.'' @
     [CHR 0x0A] @ ''Si la informaci'' @ [CHR 0xC3, CHR 0xB3] @ ''n no est'' @
     [CHR 0xC3, CHR 0xA1] @
     '' disponible en los fragmentos proporcionados, indica clarame'' @
     ''nte que no tienes informaci'' @ [CHR 0xC3, CHR 0xB3] @ ''n suficiente.'' @
     [CHR 0x0A] @ ''No inventes datos, estad'' @ [CHR 0xC3, CHR 0xAD] @
     ''sticas, ni afirmaciones que no est'' @ [CHR 0xC3, CHR 0xA9] @ ''n expl'' @
     [CHR 0xC3, CHR 0xAD] @ ''citamente en el contexto.'' @ [CHR 0x0A] @
     ''Cuando uses informaci'' @ [CHR 0xC3, CHR 0xB3] @ ''n de un fragmento espec'' @
     [CHR 0xC3, CHR 0xAD] @ ''fico, indica el documento fuente en tu respuesta.'' @
     [CHR 0x0A] @ ''Responde en el idioma de la pregunta del usuario.''"

text \<open>
  Python built-ins: \<^verbatim>\<open>str(i)\<close> of a natural number, and \<^verbatim>\<open>round(x, 4)\<close>, which
  rounds to the nearest multiple of \<open>0.0001\<close>, a tie to the even one. \<^verbatim>\<open>int(page)\<close>
  is a parameter \<open>py_int\<close> of the model, \<open>None\<close> where it raises \<^verbatim>\<open>ValueError\<close> or
  \<^verbatim>\<open>TypeError\<close>, which \<^verbatim>\<open>_extract_citations\<close> catches.
\<close>

fun str_of_nat :: "nat \<Rightarrow> string" where
  "str_of_nat n =
     (if n < 10 then [char_of (48 + n)]
      else str_of_nat (n div 10) @ [char_of (48 + n mod 10)])"

definition round_half_even :: "real \<Rightarrow> int" where
  "round_half_even x =
     (let f = \<lfloor>x\<rfloor>; d = x - of_int f
      in if d < 1 / 2 then f else if d > 1 / 2 then f + 1 else if even f then f else f + 1)"

definition py_round4 :: "real \<Rightarrow> real" where
  "py_round4 x = of_int (round_half_even (x * 10000)) / 10000"

definition dict_get :: "metadata \<Rightarrow> string \<Rightarrow> string \<Rightarrow> string" where
  "dict_get meta key dflt = (case map_of meta key of None \<Rightarrow> dflt | Some v \<Rightarrow> v)"

text \<open>\<^verbatim>\<open>_build_context\<close>: one block per chunk, numbered from 1, joined by a rule.\<close>

definition context_part :: "nat \<Rightarrow> ranked \<Rightarrow> string" where
  "context_part i chunk =
     (let meta = r_metadata chunk;
          filename = dict_get meta ''filename'' ''Documento'';
          page = dict_get meta ''page_number'' [];
          page_str = (if page \<noteq> [] \<and> page \<noteq> ''unknown'' then
     '', p'' @ [CHR 0xC3, CHR 0xA1] @ ''gina '' @ page else [])
      in
     ''[Fragmento '' @ str_of_nat i @
     '' '' @ [CHR 0xE2, CHR 0x80, CHR 0x94] @ '' '' @ filename @ page_str @ '']'' @ [CHR 0x0A]
        @ r_text chunk)"

fun join :: "string \<Rightarrow> string list \<Rightarrow> string" where
  "join sep [] = []"
| "join sep [p] = p"
| "join sep (p # q # ps) = p @ sep @ join sep (q # ps)"

definition build_context :: "ranked list \<Rightarrow> string" where
  "build_context chunks =
     join (
     [CHR 0x0A, CHR 0x0A] @ ''---'' @ [CHR 0x0A, CHR 0x0A])
       (map (\<lambda>(i, chunk). context_part i chunk) (enumerate 1 chunks))"

text \<open>\<^verbatim>\<open>_extract_citations\<close>: one citation per chunk, in order.\<close>

definition citation_of :: "(string \<Rightarrow> int option) \<Rightarrow> ranked \<Rightarrow> citation" where
  "citation_of py_int chunk =
     (let meta = r_metadata chunk;
          page = dict_get meta ''page_number'' [];
          page_num = (if page \<noteq> [] \<and> page \<noteq> ''unknown'' then py_int page else None)
      in \<lparr> cit_document_id = dict_get meta ''document_id'' [],
           cit_filename = dict_get meta ''filename'' ''Documento desconocido'',
           cit_chunk_text =
             slice_to (r_text chunk) 400 @ (if length (r_text chunk) > 400 then ''...'' else []),
           cit_page_number = page_num,
           cit_relevance_score =
             py_round4
               (case relevance chunk of
                  Some r \<Rightarrow> r
                | None \<Rightarrow> (case rrf_score chunk of Some s \<Rightarrow> s | None \<Rightarrow> 0)) \<rparr>)"

definition extract_citations :: "(string \<Rightarrow> int option) \<Rightarrow> ranked list \<Rightarrow> citation list" where
  "extract_citations py_int chunks = map (citation_of py_int) chunks"

text \<open>
  The generation collaborator: the two HTTP calls \<^verbatim>\<open>_call_ollama\<close> and
  \<^verbatim>\<open>_call_openai\<close>, from the messages (role and content) to the answer, or to the
  text \<^verbatim>\<open>str(e)\<close> of the exception \<^verbatim>\<open>e\<close> they raise (a network error, a timeout, a
  bad status, a malformed reply).
\<close>

record llm_client =
  call_ollama :: "(string \<times> string) list \<Rightarrow> string + string"
  call_openai :: "(string \<times> string) list \<Rightarrow> string + string"

definition user_message :: "string \<Rightarrow> string \<Rightarrow> string" where
  "user_message context question =
     ''Contexto de los documentos:'' @ [CHR 0x0A, CHR 0x0A] @ context @
     [CHR 0x0A, CHR 0x0A] @ ''---'' @ [CHR 0x0A, CHR 0x0A] @ ''Pregunta del usuario: '' @ question @
     [CHR 0x0A, CHR 0x0A] @ ''Responde bas'' @ [CHR 0xC3, CHR 0xA1] @
     ''ndote estrictamente en el contexto anterior.''"

definition llm_error_answer :: "string \<Rightarrow> string \<Rightarrow> string" where
  "llm_error_answer provider exc_text =
     ''Error al conectar con el LLM ('' @ provider @
     ''). Aseg'' @ [CHR 0xC3, CHR 0xBA] @ ''rate de que Ollama est'' @
     [CHR 0xC3, CHR 0xA9] @ '' ejecut'' @ [CHR 0xC3, CHR 0xA1] @ ''ndose con '' @
     [CHR 0x60] @ ''ollama serve'' @ [CHR 0x60] @ ''. Error: '' @ slice_to exc_text 100"

definition generate ::
  "settings \<Rightarrow> llm_client \<Rightarrow> (string \<Rightarrow> int option) \<Rightarrow> string \<Rightarrow> ranked list \<Rightarrow> string
     \<Rightarrow> string \<times> citation list" where
  "generate st client py_int question context_chunks crag_status =
     (if crag_status = ''insufficient'' then (INSUFFICIENT_RESPONSE, [])
      else
        let context = build_context context_chunks;
            messages = [(''system'', SYSTEM_PROMPT), (''user'', user_message context question)];
            answer =
              (case (if llm_provider st = ''openai'' then call_openai client messages
                     else call_ollama client messages) of
                 Inr a \<Rightarrow> a
               | Inl exc_text \<Rightarrow> llm_error_answer (llm_provider st) exc_text);
            citations = extract_citations py_int context_chunks
        in (answer, citations))"

text \<open>Collaborators for examples: a client whose calls fail, and one that answers.\<close>

definition failing_client :: "string \<Rightarrow> llm_client" where
  "failing_client exc_text =
     \<lparr> call_ollama = (\<lambda>_. Inl exc_text), call_openai = (\<lambda>_. Inl exc_text) \<rparr>"

definition answering_client :: "string \<Rightarrow> llm_client" where
  "answering_client a = \<lparr> call_ollama = (\<lambda>_. Inr a), call_openai = (\<lambda>_. Inr a) \<rparr>"

definition const_fetcher :: "ranked list \<Rightarrow> fetcher" where
  "const_fetcher results = (\<lambda>query collection_name top_k. Inr (slice_to results top_k))"

section \<open>Properties of reciprocal rank fusion\<close>

lemma set_first_seen [simp]: "set (first_seen xs) = set xs"
  by (induction xs) auto

lemma distinct_first_seen [simp]: "distinct (first_seen xs)"
  by (induction xs) (auto simp: distinct_removeAll)

lemma fold_add_key:
  "fold add_key xs ks = ks @ [x \<leftarrow> first_seen xs. x \<notin> set ks]"
proof (induction xs arbitrary: ks)
  case Nil
  show ?case by simp
next
  case (Cons x xs)
  have f: "\<And>P. filter P (removeAll x (first_seen xs)) = [y \<leftarrow> first_seen xs. y \<noteq> x \<and> P y]"
    by (simp add: removeAll_filter_not_eq) (rule filter_cong, auto)
  show ?case
  proof (cases "x \<in> set ks")
    case True
    then have "[y \<leftarrow> first_seen xs. y \<noteq> x \<and> y \<notin> set ks] = [y \<leftarrow> first_seen xs. y \<notin> set ks]"
      by (intro filter_cong) auto
    moreover have "add_key x ks = ks" using True by (simp add: add_key_def)
    ultimately show ?thesis using True by (simp add: Cons.IH f)
  next
    case False
    have "[y \<leftarrow> first_seen xs. y \<noteq> x \<and> y \<notin> set ks] = [y \<leftarrow> first_seen xs. y \<notin> set (ks @ [x])]"
      by (intro filter_cong) auto
    moreover have "add_key x ks = ks @ [x]" using False by (simp add: add_key_def)
    ultimately show ?thesis using False by (simp add: Cons.IH f)
  qed
qed

lemma keys_update: "map fst (AList.update k v al) = add_key k (map fst al)"
  by (simp add: update_keys add_key_def)

lemma rank_terms_Nil [simp]: "rank_terms k r [] i = []"
  by (simp add: rank_terms_def)

lemma rank_terms_Cons:
  "rank_terms k r (d # l) i = (if r_id d = i then [k + int r] else []) @ rank_terms k (Suc r) l i"
  by (simp add: rank_terms_def)

lemma rrf_inner_ok:
  assumes "\<forall>j < length l. k + int (r + j) \<noteq> 0 \<and> \<bar>k + int (r + j)\<bar> < float_overflow"
  shows "\<exists>S' D'. rrf_inner fl k r l (S, D) = Inr (S', D')
     \<and> map fst S' = fold add_key (map r_id l) (map fst S)
     \<and> (\<forall>i. score_of S' i
             = foldl (f_add fl) (score_of S i) (map (f_recip fl) (rank_terms k r l i)))
     \<and> (\<forall>i. map_of D' i = (case map_of D i of Some d \<Rightarrow> Some d | None \<Rightarrow> find (\<lambda>d. r_id d = i) l))"
  using assms
proof (induction l arbitrary: r S D)
  case Nil
  show ?case by (auto split: option.splits)
next
  case (Cons d l)
  from Cons.prems have k0: "k + int r \<noteq> 0" and k1: "\<not> float_overflow \<le> \<bar>k + int r\<bar>" by force+
  from Cons.prems
  have rest: "\<forall>j < length l. k + int (Suc r + j) \<noteq> 0 \<and> \<bar>k + int (Suc r + j)\<bar> < float_overflow"
    by force
  let ?S1 = "AList.update (r_id d) (f_add fl (score_of S (r_id d)) (f_recip fl (k + int r))) S"
  let ?D1 = "if map_of D (r_id d) = None then D @ [(r_id d, d)] else D"
  from Cons.IH[OF rest, of ?S1 ?D1] obtain S' D' where
    run: "rrf_inner fl k (Suc r) l (?S1, ?D1) = Inr (S', D')"
    and keys: "map fst S' = fold add_key (map r_id l) (map fst ?S1)"
    and sc: "\<forall>i. score_of S' i
             = foldl (f_add fl) (score_of ?S1 i) (map (f_recip fl) (rank_terms k (Suc r) l i))"
    and docs: "\<forall>i. map_of D' i = (case map_of ?D1 i of Some d \<Rightarrow> Some d | None \<Rightarrow> find (\<lambda>d. r_id d = i) l)"
    by blast
  have run': "rrf_inner fl k r (d # l) (S, D) = Inr (S', D')"
    using run k0 k1 by (simp add: score_of_def Let_def)
  have s1: "\<And>i. score_of ?S1 i
      = (if r_id d = i then f_add fl (score_of S i) (f_recip fl (k + int r)) else score_of S i)"
    by (simp add: score_of_def update_conv')
  have d1: "\<And>i. map_of ?D1 i = (case map_of D i of Some d \<Rightarrow> Some d | None \<Rightarrow> if r_id d = i then Some d else None)"
    by (auto simp: map_add_def split: option.splits)
  have docs': "\<forall>i. map_of D' i = (case map_of D i of Some d \<Rightarrow> Some d | None \<Rightarrow> find (\<lambda>d. r_id d = i) (d # l))"
    using docs by (auto simp: d1 split: option.splits)
  have keys': "map fst S' = fold add_key (map r_id (d # l)) (map fst S)"
    using keys by (simp add: keys_update)
  have sc': "\<forall>i. score_of S' i
             = foldl (f_add fl) (score_of S i) (map (f_recip fl) (rank_terms k r (d # l) i))"
    using sc unfolding s1 by (simp add: rank_terms_Cons)
  from run' keys' sc' docs' show ?case by blast
qed

lemma find_app: "find P (xs @ ys) = (case find P xs of None \<Rightarrow> find P ys | Some x \<Rightarrow> Some x)"
  by (induction xs) auto

lemma rrf_outer_ok:
  assumes "\<forall>l \<in> set ls. \<forall>j < length l. k + int (1 + j) \<noteq> 0 \<and> \<bar>k + int (1 + j)\<bar> < float_overflow"
  shows "\<exists>S' D'. rrf_outer fl k ls (S, D) = Inr (S', D')
     \<and> map fst S' = fold add_key (concat (map (map r_id) ls)) (map fst S)
     \<and> (\<forall>i. score_of S' i
             = foldl (f_add fl) (score_of S i) (map (f_recip fl) (rrf_terms k ls i)))
     \<and> (\<forall>i. map_of D' i = (case map_of D i of Some d \<Rightarrow> Some d | None \<Rightarrow> find (\<lambda>d. r_id d = i) (concat ls)))"
  using assms
proof (induction ls arbitrary: S D)
  case Nil
  show ?case by (auto simp: rrf_terms_def split: option.splits)
next
  case (Cons l ls)
  from Cons.prems
  have "\<forall>j < length l. k + int (1 + j) \<noteq> 0 \<and> \<bar>k + int (1 + j)\<bar> < float_overflow" by simp
  from rrf_inner_ok[OF this, of fl S D] obtain S1 D1 where
    run1: "rrf_inner fl k 1 l (S, D) = Inr (S1, D1)"
    and keys1: "map fst S1 = fold add_key (map r_id l) (map fst S)"
    and sc1: "\<forall>i. score_of S1 i
             = foldl (f_add fl) (score_of S i) (map (f_recip fl) (rank_terms k 1 l i))"
    and docs1: "\<forall>i. map_of D1 i = (case map_of D i of Some d \<Rightarrow> Some d | None \<Rightarrow> find (\<lambda>d. r_id d = i) l)"
    by blast
  from Cons.prems
  have "\<forall>l \<in> set ls. \<forall>j < length l. k + int (1 + j) \<noteq> 0 \<and> \<bar>k + int (1 + j)\<bar> < float_overflow"
    by simp
  from Cons.IH[OF this, of S1 D1] obtain S' D' where
    run: "rrf_outer fl k ls (S1, D1) = Inr (S', D')"
    and keys: "map fst S' = fold add_key (concat (map (map r_id) ls)) (map fst S1)"
    and sc: "\<forall>i. score_of S' i
             = foldl (f_add fl) (score_of S1 i) (map (f_recip fl) (rrf_terms k ls i))"
    and docs: "\<forall>i. map_of D' i = (case map_of D1 i of Some d \<Rightarrow> Some d | None \<Rightarrow> find (\<lambda>d. r_id d = i) (concat ls))"
    by blast
  have run': "rrf_outer fl k (l # ls) (S, D) = Inr (S', D')"
    using run1 run by simp
  have keys': "map fst S' = fold add_key (concat (map (map r_id) (l # ls))) (map fst S)"
    using keys keys1 by simp
  have sc': "\<forall>i. score_of S' i
             = foldl (f_add fl) (score_of S i) (map (f_recip fl) (rrf_terms k (l # ls) i))"
    using sc sc1 by (simp add: rrf_terms_def)
  have docs': "\<forall>i. map_of D' i = (case map_of D i of Some d \<Rightarrow> Some d | None \<Rightarrow> find (\<lambda>d. r_id d = i) (concat (l # ls)))"
    using docs docs1 by (simp add: find_app split: option.splits)
  from run' keys' sc' docs' show ?case by blast
qed

lemma rrf_results_ok:
  assumes "\<forall>i \<in> set ids. map_of D i \<noteq> None \<and> map_of S i \<noteq> None"
  shows "rrf_results S D ids =
     Inr (map (\<lambda>i. (the (map_of D i))\<lparr>rrf_score := map_of S i\<rparr>) ids)"
  using assms by (induction ids) auto

lemma insort_key_cong_set:
  "f x = g x \<Longrightarrow> (\<forall>y \<in> set xs. f y = g y) \<Longrightarrow> insort_key f x xs = insort_key g x xs"
  by (induction xs) auto

lemma sort_key_cong_set:
  "(\<forall>y \<in> set xs. f y = g y) \<Longrightarrow> sort_key f xs = sort_key g xs"
  by (induction xs) (auto intro: insort_key_cong_set)

lemma map_insort_key:
  "map h (insort_key (\<lambda>p. g (h p)) x xs) = insort_key g (h x) (map h xs)"
  by (induction xs) auto

lemma map_sort_key:
  "map h (sort_key (\<lambda>p. g (h p)) xs) = sort_key g (map h xs)"
  by (induction xs) (auto simp: map_insort_key)

lemma first_doc_Some:
  "i \<in> set (all_ids ls) \<Longrightarrow> \<exists>d. first_doc ls i = Some d \<and> r_id d = i"
proof -
  assume "i \<in> set (all_ids ls)"
  then have "\<exists>d \<in> set (concat ls). r_id d = i" by (auto simp: all_ids_def)
  then have "find (\<lambda>d. r_id d = i) (concat ls) \<noteq> None" unfolding find_None_iff by blast
  then obtain d where d: "find (\<lambda>d. r_id d = i) (concat ls) = Some d" by blast
  then have "r_id d = i" by (auto simp: find_Some_iff)
  with d show ?thesis by (simp add: first_doc_def)
qed

lemma fusion_char:
  assumes "rrf_safe k ls"
  shows "reciprocal_rank_fusion fl st ls (Some k) =
     Inr (map (\<lambda>i. (the (first_doc ls i))\<lparr>rrf_score := Some (rrf_total fl k ls i)\<rparr>)
            (sort_key (\<lambda>i. - rrf_total fl k ls i) (first_seen (all_ids ls))))"
proof -
  have pre: "\<forall>l \<in> set ls. \<forall>j < length l.
      k + int (1 + j) \<noteq> 0 \<and> \<bar>k + int (1 + j)\<bar> < float_overflow"
  proof (intro ballI allI impI)
    fix l j assume "l \<in> set ls" "j < length l"
    then have "1 + j \<in> {1..length l}" by simp
    with assms \<open>l \<in> set ls\<close> show "k + int (1 + j) \<noteq> 0 \<and> \<bar>k + int (1 + j)\<bar> < float_overflow"
      unfolding rrf_safe_def by blast
  qed
  from rrf_outer_ok[OF pre, of fl "[]" "[]"] obtain S' D' where
    run: "rrf_outer fl k ls ([], []) = Inr (S', D')"
    and keys: "map fst S' = first_seen (all_ids ls)"
    and sc: "\<forall>i. score_of S' i = rrf_total fl k ls i"
    and docs: "\<forall>i. map_of D' i = first_doc ls i"
    by (auto simp: fold_add_key score_of_def all_ids_def first_doc_def rrf_total_def)
  have dist: "distinct (map fst S')" by (simp add: keys)
  have val: "map_of S' i = Some (rrf_total fl k ls i)" if "i \<in> set (first_seen (all_ids ls))" for i
  proof -
    from that keys have "i \<in> fst ` set S'" by (metis set_map)
    then obtain v where v: "map_of S' i = Some v"
      by (metis map_of_eq_None_iff not_None_eq)
    then have "score_of S' i = v" by (simp add: score_of_def)
    with sc v show ?thesis by simp
  qed
  have snd_eq: "\<forall>p \<in> set S'. - snd p = - rrf_total fl k ls (fst p)"
  proof
    fix p assume p: "p \<in> set S'"
    then have "map_of S' (fst p) = Some (snd p)" using dist by simp
    moreover have "fst p \<in> set (first_seen (all_ids ls))" using p keys by (metis image_eqI set_map)
    ultimately show "- snd p = - rrf_total fl k ls (fst p)" using val by simp
  qed
  have ids: "sorted_ids_desc S' = sort_key (\<lambda>i. - rrf_total fl k ls i) (first_seen (all_ids ls))"
    unfolding sorted_ids_desc_def
    using sort_key_cong_set[OF snd_eq] map_sort_key[of fst "\<lambda>i. - rrf_total fl k ls i" S'] keys
    by simp
  have ok: "\<forall>i \<in> set (sorted_ids_desc S'). map_of D' i \<noteq> None \<and> map_of S' i \<noteq> None"
    using val docs first_doc_Some[of _ ls] by (simp add: ids) blast
  have "rrf_results S' D' (sorted_ids_desc S') =
      Inr (map (\<lambda>i. (the (map_of D' i))\<lparr>rrf_score := map_of S' i\<rparr>) (sorted_ids_desc S'))"
    by (rule rrf_results_ok[OF ok])
  also have "map (\<lambda>i. (the (map_of D' i))\<lparr>rrf_score := map_of S' i\<rparr>) (sorted_ids_desc S') =
      map (\<lambda>i. (the (first_doc ls i))\<lparr>rrf_score := Some (rrf_total fl k ls i)\<rparr>) (sorted_ids_desc S')"
    by (rule map_cong) (auto simp: ids docs val)
  finally show ?thesis
    using run by (simp add: reciprocal_rank_fusion_def ids)
qed

lemma sort_key_stable_desc:
  "[i \<leftarrow> sort_key (\<lambda>i. - (g i :: real)) xs. g i = s] = [i \<leftarrow> xs. g i = s]"
  using sort_key_stable[of "\<lambda>i. - g i" "- s" xs] by simp

lemma sorted_desc_sort_key:
  "sorted_wrt (\<lambda>a b. (g b :: real) \<le> g a) (sort_key (\<lambda>i. - g i) xs)"
proof -
  have "sorted (map (\<lambda>i. - g i) (sort_key (\<lambda>i. - g i) xs))" by (rule sorted_sort_key)
  then show ?thesis by (simp add: sorted_map)
qed

lemma small_in_float_range: "\<bar>n\<bar> < 2 ^ 64 \<Longrightarrow> \<bar>n :: int\<bar> < float_overflow"
proof -
  have "(2 :: int) ^ 64 \<le> float_overflow" by (simp add: float_overflow_def)
  then show "\<bar>n\<bar> < 2 ^ 64 \<Longrightarrow> \<bar>n\<bar> < float_overflow" by linarith
qed

lemma rrf_safe_nonneg:
  assumes "0 \<le> k" and "\<forall>l \<in> set ls. k + int (length l) < float_overflow"
  shows "rrf_safe k ls"
  unfolding rrf_safe_def
proof (intro ballI)
  fix l r assume l: "l \<in> set ls" and r: "r \<in> {1..length l}"
  from r have "1 \<le> int r" "int r \<le> int (length l)" by simp_all
  moreover from assms(2) l have "k + int (length l) < float_overflow" by blast
  ultimately show "k + int r \<noteq> 0 \<and> \<bar>k + int r\<bar> < float_overflow"
    using assms(1) by linarith
qed

lemma foldl_plus_sum_list: "foldl (\<lambda>x y. x + y) a xs = a + sum_list (xs :: real list)"
  by (induction xs arbitrary: a) (simp_all add: add.assoc)

lemma rrf_total_exact:
  "rrf_total exact_floats k ls i = (\<Sum>n \<leftarrow> rrf_terms k ls i. 1 / real_of_int n)"
  by (simp add: rrf_total_def exact_floats_def foldl_plus_sum_list comp_def)

lemma fusion_three:
  assumes "distinct [r_id a, r_id b, r_id c]"
    and "f_add fl 0 (f_recip fl 62) \<le> f_add fl 0 (f_recip fl 61)"
    and "f_add fl 0 (f_recip fl 63) \<le> f_add fl 0 (f_recip fl 62)"
  shows "reciprocal_rank_fusion fl st [[a, b, c]] (Some 60) =
     Inr [a\<lparr>rrf_score := Some (f_add fl 0 (f_recip fl 61))\<rparr>,
          b\<lparr>rrf_score := Some (f_add fl 0 (f_recip fl 62))\<rparr>,
          c\<lparr>rrf_score := Some (f_add fl 0 (f_recip fl 63))\<rparr>]"
proof -
  have r: "\<not> float_overflow \<le> 61" "\<not> float_overflow \<le> 62" "\<not> float_overflow \<le> 63"
    by (simp_all add: float_overflow_def)
  from assms have le: "f_add fl 0 (f_recip fl 63) \<le> f_add fl 0 (f_recip fl 61)" by linarith
  show ?thesis
    using assms le r
    by (auto simp: reciprocal_rank_fusion_def sorted_ids_desc_def Let_def)
qed

text \<open>
  Claim C1, as amended. Whenever every \<open>k + rank\<close> of the input is not zero and converts
  to a double (\<open>rrf_safe\<close>; in particular for \<open>k \<ge> 0\<close> with \<open>k\<close> plus the length of
  each list below \<open>2^1024 - 2^970\<close>), fusion returns a list and raises nothing, for any
  number of input lists, empty ones included. The output holds every id once. Each entry
  is a copy of the first entry that carried its id, with \<open>rrf_score\<close> set to the
  accumulated score \<open>rrf_total\<close>: the float sum, taken from \<open>0.0\<close> in the order of the
  lists, of the float quotients \<open>1.0 / (k + r)\<close> at the 1-based ranks \<open>r\<close> where the id
  occurs; with exact arithmetic that is the sum of \<open>1 / (k + r)\<close>. The output is in
  descending order of the accumulated score, and ids whose accumulated scores are equal
  stand in first-seen order (the sort is stable). An omitted \<open>k\<close> is the configured
  \<open>rrf_k\<close>. For three entries with distinct ids, fusing the single list \<open>[a, b, c]\<close>
  with \<open>k = 60\<close> gives \<open>a, b, c\<close> with the scores \<open>0.0 + 1.0/61\<close>, \<open>0.0 + 1.0/62\<close>,
  \<open>0.0 + 1.0/63\<close> when these do not increase, and with exact arithmetic they are
  \<open>1/61\<close>, \<open>1/62\<close>, \<open>1/63\<close>.
\<close>

theorem fusion_rrf_correct:
  "(rrf_safe k ls \<longrightarrow>
      (\<exists>out. reciprocal_rank_fusion fl st ls (Some k) = Inr out
         \<and> distinct (map r_id out) \<and> set (map r_id out) = set (all_ids ls)
         \<and> (\<forall>e \<in> set out.
               rrf_score e = Some (rrf_total fl k ls (r_id e))
             \<and> (\<exists>d. first_doc ls (r_id e) = Some d
                    \<and> e = d\<lparr>rrf_score := Some (rrf_total fl k ls (r_id e))\<rparr>))
         \<and> sorted_wrt (\<lambda>a b. rrf_total fl k ls (r_id b) \<le> rrf_total fl k ls (r_id a)) out
         \<and> (\<forall>s. [i \<leftarrow> map r_id out. rrf_total fl k ls i = s]
                  = [i \<leftarrow> first_seen (all_ids ls). rrf_total fl k ls i = s])))
   \<and> (0 \<le> k \<and> (\<forall>l \<in> set ls. k + int (length l) < float_overflow) \<longrightarrow> rrf_safe k ls)
   \<and> rrf_total exact_floats k ls i = (\<Sum>n \<leftarrow> rrf_terms k ls i. 1 / real_of_int n)
   \<and> reciprocal_rank_fusion fl st ls None = reciprocal_rank_fusion fl st ls (Some (rrf_k st))
   \<and> (distinct [r_id a, r_id b, r_id c]
        \<and> f_add fl 0 (f_recip fl 62) \<le> f_add fl 0 (f_recip fl 61)
        \<and> f_add fl 0 (f_recip fl 63) \<le> f_add fl 0 (f_recip fl 62) \<longrightarrow>
        reciprocal_rank_fusion fl st [[a, b, c]] (Some 60) =
          Inr [a\<lparr>rrf_score := Some (f_add fl 0 (f_recip fl 61))\<rparr>,
               b\<lparr>rrf_score := Some (f_add fl 0 (f_recip fl 62))\<rparr>,
               c\<lparr>rrf_score := Some (f_add fl 0 (f_recip fl 63))\<rparr>])
   \<and> (distinct [r_id a, r_id b, r_id c] \<longrightarrow>
        reciprocal_rank_fusion exact_floats st [[a, b, c]] (Some 60) =
          Inr [a\<lparr>rrf_score := Some (1 / 61)\<rparr>, b\<lparr>rrf_score := Some (1 / 62)\<rparr>,
               c\<lparr>rrf_score := Some (1 / 63)\<rparr>])"
proof (intro conjI impI)
  assume safe: "rrf_safe k ls"
  let ?tot = "rrf_total fl k ls"
  let ?ids = "sort_key (\<lambda>i. - ?tot i) (first_seen (all_ids ls))"
  let ?mk = "\<lambda>i. (the (first_doc ls i))\<lparr>rrf_score := Some (?tot i)\<rparr>"
  let ?out = "map ?mk ?ids"
  have run: "reciprocal_rank_fusion fl st ls (Some k) = Inr ?out" by (rule fusion_char[OF safe])
  have idmk: "r_id (?mk i) = i" if "i \<in> set (all_ids ls)" for i
    using first_doc_Some[OF that] by auto
  have ids: "map r_id ?out = ?ids"
  proof -
    have "map (\<lambda>i. r_id (?mk i)) ?ids = ?ids"
      by (rule map_idI) (use idmk in simp)
    then show ?thesis by (simp add: comp_def)
  qed
  have d: "distinct (map r_id ?out)" unfolding ids by simp
  have s: "set (map r_id ?out) = set (all_ids ls)" unfolding ids by simp
  have pay: "\<forall>e \<in> set ?out. rrf_score e = Some (?tot (r_id e))
             \<and> (\<exists>d. first_doc ls (r_id e) = Some d \<and> e = d\<lparr>rrf_score := Some (?tot (r_id e))\<rparr>)"
  proof
    fix e assume "e \<in> set ?out"
    then obtain i where i: "i \<in> set (all_ids ls)" and e: "e = ?mk i" by auto
    from first_doc_Some[OF i] obtain d0 where d0: "first_doc ls i = Some d0" "r_id d0 = i" by blast
    show "rrf_score e = Some (?tot (r_id e))
       \<and> (\<exists>d. first_doc ls (r_id e) = Some d \<and> e = d\<lparr>rrf_score := Some (?tot (r_id e))\<rparr>)"
      using d0 e by simp
  qed
  have "sorted_wrt (\<lambda>a b. ?tot b \<le> ?tot a) (map r_id ?out)"
    unfolding ids by (rule sorted_desc_sort_key)
  then have srt: "sorted_wrt (\<lambda>a b. ?tot (r_id b) \<le> ?tot (r_id a)) ?out"
    unfolding sorted_wrt_map .
  have stab: "\<forall>s. [i \<leftarrow> map r_id ?out. ?tot i = s] = [i \<leftarrow> first_seen (all_ids ls). ?tot i = s]"
    unfolding ids by (simp add: sort_key_stable_desc)
  from run d s pay srt stab
  show "\<exists>out. reciprocal_rank_fusion fl st ls (Some k) = Inr out
         \<and> distinct (map r_id out) \<and> set (map r_id out) = set (all_ids ls)
         \<and> (\<forall>e \<in> set out.
               rrf_score e = Some (rrf_total fl k ls (r_id e))
             \<and> (\<exists>d. first_doc ls (r_id e) = Some d
                    \<and> e = d\<lparr>rrf_score := Some (rrf_total fl k ls (r_id e))\<rparr>))
         \<and> sorted_wrt (\<lambda>a b. rrf_total fl k ls (r_id b) \<le> rrf_total fl k ls (r_id a)) out
         \<and> (\<forall>s. [i \<leftarrow> map r_id out. rrf_total fl k ls i = s]
                  = [i \<leftarrow> first_seen (all_ids ls). rrf_total fl k ls i = s])"
    by blast
next
  assume "0 \<le> k \<and> (\<forall>l \<in> set ls. k + int (length l) < float_overflow)"
  then show "rrf_safe k ls" using rrf_safe_nonneg by blast
next
  show "rrf_total exact_floats k ls i = (\<Sum>n \<leftarrow> rrf_terms k ls i. 1 / real_of_int n)"
    by (rule rrf_total_exact)
next
  show "reciprocal_rank_fusion fl st ls None = reciprocal_rank_fusion fl st ls (Some (rrf_k st))"
    by (simp add: reciprocal_rank_fusion_def)
next
  assume "distinct [r_id a, r_id b, r_id c]
        \<and> f_add fl 0 (f_recip fl 62) \<le> f_add fl 0 (f_recip fl 61)
        \<and> f_add fl 0 (f_recip fl 63) \<le> f_add fl 0 (f_recip fl 62)"
  then show "reciprocal_rank_fusion fl st [[a, b, c]] (Some 60) =
          Inr [a\<lparr>rrf_score := Some (f_add fl 0 (f_recip fl 61))\<rparr>,
               b\<lparr>rrf_score := Some (f_add fl 0 (f_recip fl 62))\<rparr>,
               c\<lparr>rrf_score := Some (f_add fl 0 (f_recip fl 63))\<rparr>]"
    using fusion_three by blast
next
  assume "distinct [r_id a, r_id b, r_id c]"
  from fusion_three[OF this, of exact_floats st]
  show "reciprocal_rank_fusion exact_floats st [[a, b, c]] (Some 60) =
          Inr [a\<lparr>rrf_score := Some (1 / 61)\<rparr>, b\<lparr>rrf_score := Some (1 / 62)\<rparr>,
               c\<lparr>rrf_score := Some (1 / 63)\<rparr>]"
    by (simp add: exact_floats_def)
qed

theorem fusion_rrf_correct_witness:
  "rrf_safe 60 [[mk_ranked ''a'' ''x'' [] 1, mk_ranked ''b'' ''y'' [] 0.5], [],
                [mk_ranked ''b'' ''z'' [] 1, mk_ranked ''c'' ''w'' [] 0.9]]
   \<and> distinct [r_id (mk_ranked ''a'' ''x'' [] 1), r_id (mk_ranked ''b'' ''y'' [] 0.5),
               r_id (mk_ranked ''c'' ''w'' [] 0.9)]
   \<and> reciprocal_rank_fusion exact_floats default_settings
        [[mk_ranked ''a'' ''x'' [] 1, mk_ranked ''b'' ''y'' [] 0.5], [],
         [mk_ranked ''b'' ''z'' [] 1, mk_ranked ''c'' ''w'' [] 0.9]] (Some 60)
       = Inr [(mk_ranked ''b'' ''y'' [] 0.5)\<lparr>rrf_score := Some (1 / 62 + 1 / 61)\<rparr>,
              (mk_ranked ''a'' ''x'' [] 1)\<lparr>rrf_score := Some (1 / 61)\<rparr>,
              (mk_ranked ''c'' ''w'' [] 0.9)\<lparr>rrf_score := Some (1 / 62)\<rparr>]
   \<and> reciprocal_rank_fusion exact_floats default_settings
        [[mk_ranked ''a'' ''x'' [] 1, mk_ranked ''b'' ''y'' [] 0.5,
          mk_ranked ''c'' ''w'' [] 0.9]] (Some 60)
       = Inr [(mk_ranked ''a'' ''x'' [] 1)\<lparr>rrf_score := Some (1 / 61)\<rparr>,
              (mk_ranked ''b'' ''y'' [] 0.5)\<lparr>rrf_score := Some (1 / 62)\<rparr>,
              (mk_ranked ''c'' ''w'' [] 0.9)\<lparr>rrf_score := Some (1 / 63)\<rparr>]"
proof -
  let ?a = "mk_ranked ''a'' ''x'' [] 1" and ?b = "mk_ranked ''b'' ''y'' [] 0.5"
    and ?b' = "mk_ranked ''b'' ''z'' [] 1" and ?c = "mk_ranked ''c'' ''w'' [] 0.9"
  let ?ls = "[[?a, ?b], [], [?b', ?c]]"
  note T = fusion_rrf_correct[of 60 ?ls exact_floats default_settings "''b''" ?a ?b ?c]
  have "(0 :: int) \<le> 60 \<and> (\<forall>l \<in> set ?ls. 60 + int (length l) < float_overflow)"
    by (simp add: float_overflow_def)
  with T have safe: "rrf_safe 60 ?ls" by blast
  have dist: "distinct [r_id ?a, r_id ?b, r_id ?c]"
    by (simp add: mk_ranked_def)
  from T safe obtain out where
    run: "reciprocal_rank_fusion exact_floats default_settings ?ls (Some 60) = Inr out"
    and ids: "distinct (map r_id out)" "set (map r_id out) = set (all_ids ?ls)"
    and pay: "\<forall>e \<in> set out. rrf_score e = Some (rrf_total exact_floats 60 ?ls (r_id e))"
    and srt: "sorted_wrt (\<lambda>a b. rrf_total exact_floats 60 ?ls (r_id b)
                              \<le> rrf_total exact_floats 60 ?ls (r_id a)) out"
    by blast
  have no: "\<not> float_overflow \<le> 61" "\<not> float_overflow \<le> 62"
    by (simp_all add: float_overflow_def)
  have out: "reciprocal_rank_fusion exact_floats default_settings ?ls (Some 60)
       = Inr [?b\<lparr>rrf_score := Some (1 / 62 + 1 / 61)\<rparr>, ?a\<lparr>rrf_score := Some (1 / 61)\<rparr>,
              ?c\<lparr>rrf_score := Some (1 / 62)\<rparr>]"
    using no by (simp add: reciprocal_rank_fusion_def sorted_ids_desc_def mk_ranked_def Let_def
        exact_floats_def)
  from T dist
  have ex: "reciprocal_rank_fusion exact_floats default_settings [[?a, ?b, ?c]] (Some 60) =
      Inr [?a\<lparr>rrf_score := Some (1 / 61)\<rparr>, ?b\<lparr>rrf_score := Some (1 / 62)\<rparr>,
           ?c\<lparr>rrf_score := Some (1 / 63)\<rparr>]"
    by blast
  from safe dist out ex show ?thesis by blast
qed

theorem fusion_negative_k_counterexample:
  "reciprocal_rank_fusion exact_floats default_settings [[mk_ranked ''a'' ''x'' [] 1]] (Some (- 1))
     = Inl ZeroDivisionError
   \<and> (0 :: int) \<le> 2 ^ 1024
   \<and> reciprocal_rank_fusion exact_floats default_settings [[mk_ranked ''a'' ''x'' [] 1]]
        (Some (2 ^ 1024))
     = Inl OverflowError"
  by (simp add: reciprocal_rank_fusion_def mk_ranked_def float_overflow_def)
section \<open>Properties of the relevance gate\<close>

lemma evaluate_loop_ok:
  assumes "embed_single enc q = Inr qe"
    and "\<forall>c \<in> set chunks. combined_relevance enc q c = Inr (comb c)"
  shows "evaluate_loop enc qe t chunks =
     Inr (map (set_relevance comb) chunks, map (set_relevance comb) [c \<leftarrow> chunks. t \<le> comb c])"
  using assms(2)
proof (induction chunks)
  case Nil
  show ?case by simp
next
  case (Cons c chunks)
  from Cons.prems have c: "combined_relevance enc q c = Inr (comb c)" by simp
  from Cons.prems have "\<forall>c \<in> set chunks. combined_relevance enc q c = Inr (comb c)" by simp
  then have IH: "evaluate_loop enc qe t chunks =
     Inr (map (set_relevance comb) chunks, map (set_relevance comb) [c \<leftarrow> chunks. t \<le> comb c])"
    by (rule Cons.IH)
  from c assms(1) obtain ce d where
    ce: "embed_single enc (r_text c) = Inr ce" and d: "cosine_similarity qe ce = Inr d"
    and comb: "comb c = d + (if (case rrf_score c of None \<Rightarrow> 0 | Some s \<Rightarrow> s) > 0.01 then 0.05 else 0)"
    by (auto simp: combined_relevance_def split: sum.splits)
  show ?case
    using ce d IH comb by (simp add: Let_def set_relevance_def)
qed

lemma evaluate_loop_fail:
  assumes "embed_single enc q = Inr qe"
    and "\<forall>c \<in> set pre. \<exists>x. combined_relevance enc q c = Inr x"
    and "embed_single enc (r_text c) = Inl e"
  shows "evaluate_loop enc qe t (pre @ c # post) = Inl e"
  using assms(2)
proof (induction pre)
  case Nil
  show ?case using assms(3) by simp
next
  case (Cons p pre)
  from Cons.prems obtain x where "combined_relevance enc q p = Inr x" by auto
  with assms(1) obtain ce d where
    ce: "embed_single enc (r_text p) = Inr ce" and d: "cosine_similarity qe ce = Inr d"
    by (auto simp: combined_relevance_def split: sum.splits)
  from Cons.prems have "evaluate_loop enc qe t (pre @ c # post) = Inl e"
    by (intro Cons.IH) simp
  with ce d show ?case by (simp add: Let_def)
qed

lemma evaluate_loop_fail_any:
  assumes "c \<in> set chunks" and "embed_single enc (r_text c) = Inl e"
  shows "\<exists>e'. evaluate_loop enc qe t chunks = Inl e'"
  using assms(1)
proof (induction chunks)
  case Nil
  then show ?case by simp
next
  case (Cons p chunks)
  show ?case
  proof (cases "p = c")
    case True
    then show ?thesis using assms(2) by simp
  next
    case False
    with Cons.prems have "c \<in> set chunks" by simp
    then obtain e' where "evaluate_loop enc qe t chunks = Inl e'" using Cons.IH by blast
    then show ?thesis by (simp add: Let_def split: sum.splits)
  qed
qed

lemma sort_by_relevance_marked:
  "sort_by_relevance_desc (map (set_relevance comb) P) =
     Inr (map (set_relevance comb) (sort_key (\<lambda>c. - comb c) P))"
proof -
  have "sort_key (\<lambda>c. - the (relevance c)) (map (set_relevance comb) P)
      = map (set_relevance comb) (sort_key (\<lambda>c. - the (relevance (set_relevance comb c))) P)"
    by (rule map_sort_key[symmetric])
  then show ?thesis by (simp add: sort_by_relevance_desc_def set_relevance_def)
qed

text \<open>
  The gate for a threshold argument other than \<open>0.0\<close>, when the collaborator scores every
  chunk (\<open>comb c\<close> is the combined relevance of \<open>c\<close>): every chunk gets
  \<open>relevance = comb c\<close>; with \<open>P\<close> the chunks whose \<open>comb\<close> reaches the threshold,
  an empty \<open>P\<close> gives \<open>insufficient\<close> and no chunks, otherwise the status is
  \<open>grounded\<close> exactly when at least half of the chunks are in \<open>P\<close>, and the chunks
  returned are those of \<open>P\<close> in descending order of relevance, equal ones in their
  original order.
\<close>

lemma evaluate_gate:
  assumes ok: "\<forall>c \<in> set chunks. combined_relevance enc q c = Inr (comb c)"
    and thr: "thr \<noteq> Some 0"
    and t: "t = (case thr of None \<Rightarrow> crag_relevance_threshold st | Some x \<Rightarrow> x)"
    and P: "P = [c \<leftarrow> chunks. t \<le> comb c]"
  shows "\<exists>status passing.
      evaluate st enc q chunks thr = Inr ((status, passing), map (set_relevance comb) chunks)
    \<and> (P = [] \<longrightarrow> status = ''insufficient'' \<and> passing = [])
    \<and> (P \<noteq> [] \<longrightarrow>
          status = (if length chunks \<le> 2 * length P then ''grounded'' else ''partial'')
        \<and> (\<exists>P'. passing = map (set_relevance comb) P'
              \<and> set P' = set P \<and> length P' = length P
              \<and> sorted_wrt (\<lambda>a b. comb b \<le> comb a) P'
              \<and> (\<forall>s. [c \<leftarrow> P'. comb c = s] = [c \<leftarrow> P. comb c = s])))"
proof (cases "chunks = []")
  case True
  with P show ?thesis by (simp add: evaluate_def)
next
  case False
  then obtain c0 where "c0 \<in> set chunks" by (cases chunks) auto
  with ok have "combined_relevance enc q c0 = Inr (comb c0)" by simp
  then obtain qe where qe: "embed_single enc q = Inr qe"
    by (auto simp: combined_relevance_def split: sum.splits)
  have teff: "(case thr of None \<Rightarrow> crag_relevance_threshold st
         | Some t \<Rightarrow> if t = 0 then crag_relevance_threshold st else t) = t"
    using thr t by (auto split: option.splits)
  have loop: "evaluate_loop enc qe t chunks =
     Inr (map (set_relevance comb) chunks, map (set_relevance comb) P)"
    unfolding P by (rule evaluate_loop_ok[OF qe ok])
  show ?thesis
  proof (cases "P = []")
    case True
    then show ?thesis using False qe loop teff by (simp add: evaluate_def)
  next
    case Pne: False
    let ?P' = "sort_key (\<lambda>c. - comb c) P"
    have len: "0 < length chunks" using False by simp
    have ratio: "(1 / 2 \<le> real (length P) / real (length chunks)) = (length chunks \<le> 2 * length P)"
      using len by (simp add: field_simps) linarith
    have run: "evaluate st enc q chunks thr =
        Inr ((if length chunks \<le> 2 * length P then ''grounded'' else ''partial'',
              map (set_relevance comb) ?P'), map (set_relevance comb) chunks)"
      using False qe loop teff Pne ratio
      by (simp add: evaluate_def sort_by_relevance_marked Let_def)
    have "sorted_wrt (\<lambda>a b. comb b \<le> comb a) ?P'" by (rule sorted_desc_sort_key)
    moreover have "\<forall>s. [c \<leftarrow> ?P'. comb c = s] = [c \<leftarrow> P. comb c = s]"
      by (simp add: sort_key_stable_desc)
    moreover have "set ?P' = set P" "length ?P' = length P" by simp_all
    ultimately show ?thesis using run Pne by blast
  qed
qed

text \<open>
  Claim C2 says that for every threshold \<open>t\<close> a chunk passes iff its combined relevance
  is at least \<open>t\<close>. At the threshold argument \<open>0.0\<close> the code does otherwise: two
  chunks of combined relevance \<open>0.1\<close> and \<open>0.15\<close>, both at least \<open>0.0\<close>, do not
  pass, and the result is \<open>insufficient\<close> with no chunks, where the claim gives
  \<open>grounded\<close> with both.
\<close>

theorem evaluate_zero_threshold_failing:
  "combined_relevance (table_encoder [(''q'', 1), (''c1'', 0.1), (''c2'', 0.15)]) ''q''
       (mk_ranked ''1'' ''c1'' [] 1) = Inr 0.1
   \<and> combined_relevance (table_encoder [(''q'', 1), (''c1'', 0.1), (''c2'', 0.15)]) ''q''
       (mk_ranked ''2'' ''c2'' [] 1) = Inr 0.15
   \<and> (0 :: real) \<le> 0.1 \<and> (0 :: real) \<le> 0.15
   \<and> evaluate default_settings (table_encoder [(''q'', 1), (''c1'', 0.1), (''c2'', 0.15)]) ''q''
        [mk_ranked ''1'' ''c1'' [] 1, mk_ranked ''2'' ''c2'' [] 1] (Some 0)
      = Inr ((''insufficient'', []),
             [(mk_ranked ''1'' ''c1'' [] 1)\<lparr>relevance := Some 0.1\<rparr>,
              (mk_ranked ''2'' ''c2'' [] 1)\<lparr>relevance := Some 0.15\<rparr>])"
  by (simp add: evaluate_def default_settings_def table_encoder_def embed_single_def embed_def
        cosine_similarity_def mk_ranked_def combined_relevance_def)

text \<open>
  Claim C7. A failure of the embedding collaborator during \<open>evaluate\<close> on a non-empty
  chunk list comes out of \<open>evaluate\<close> as that failure: when embedding the query fails
  with \<open>e\<close> the result is \<open>Inl e\<close>; when the query and the chunks before \<open>c\<close> are
  scored and embedding \<open>c\<close> fails with \<open>e\<close> the result is \<open>Inl e\<close>; and whenever the
  embedding of any chunk of the list fails, the result is an error, never a status.
  On the empty list the result is \<open>insufficient\<close> whatever the collaborator would do.
\<close>

theorem evaluate_propagates_embedding_failure:
  "(chunks \<noteq> [] \<and> embed_single enc q = Inl e \<longrightarrow> evaluate st enc q chunks thr = Inl e)
   \<and> (embed_single enc q = Inr qe
        \<and> (\<forall>p \<in> set pre. \<exists>x. combined_relevance enc q p = Inr x)
        \<and> embed_single enc (r_text c) = Inl e
      \<longrightarrow> evaluate st enc q (pre @ c # post) thr = Inl e)
   \<and> (c \<in> set chunks \<and> embed_single enc (r_text c) = Inl e
      \<longrightarrow> (\<exists>e'. evaluate st enc q chunks thr = Inl e'))
   \<and> evaluate st enc q [] thr = Inr ((''insufficient'', []), [])"
proof (intro conjI impI)
  assume "chunks \<noteq> [] \<and> embed_single enc q = Inl e"
  then show "evaluate st enc q chunks thr = Inl e"
    by (simp add: evaluate_def)
next
  assume a: "embed_single enc q = Inr qe
        \<and> (\<forall>p \<in> set pre. \<exists>x. combined_relevance enc q p = Inr x)
        \<and> embed_single enc (r_text c) = Inl e"
  then have "evaluate_loop enc qe t (pre @ c # post) = Inl e" for t
    using evaluate_loop_fail by blast
  with a show "evaluate st enc q (pre @ c # post) thr = Inl e"
    by (simp add: evaluate_def Let_def)
next
  assume a: "c \<in> set chunks \<and> embed_single enc (r_text c) = Inl e"
  then have ne: "chunks \<noteq> []" by auto
  show "\<exists>e'. evaluate st enc q chunks thr = Inl e'"
  proof (cases "embed_single enc q")
    case (Inl e0)
    with ne show ?thesis by (simp add: evaluate_def)
  next
    case (Inr qe0)
    from a have "\<exists>e'. evaluate_loop enc qe0 t chunks = Inl e'" for t
      using evaluate_loop_fail_any by blast
    then obtain e' where "evaluate_loop enc qe0
        (case thr of None \<Rightarrow> crag_relevance_threshold st
         | Some t \<Rightarrow> if t = 0 then crag_relevance_threshold st else t) chunks = Inl e'"
      by blast
    with ne Inr show ?thesis by (simp add: evaluate_def Let_def)
  qed
next
  show "evaluate st enc q [] thr = Inr ((''insufficient'', []), [])"
    by (simp add: evaluate_def)
qed

theorem evaluate_propagates_embedding_failure_witness:
  "[mk_ranked ''1'' ''c1'' [] 1, mk_ranked ''2'' ''zz'' [] 1] \<noteq> []
   \<and> embed_single (table_encoder []) ''q'' = Inl (CollaboratorError ''embedding model unavailable'')
   \<and> evaluate default_settings (table_encoder []) ''q''
        [mk_ranked ''1'' ''c1'' [] 1, mk_ranked ''2'' ''zz'' [] 1] None
      = Inl (CollaboratorError ''embedding model unavailable'')
   \<and> embed_single (table_encoder [(''q'', 1), (''c1'', 0.1)]) ''q'' = Inr [1]
   \<and> combined_relevance (table_encoder [(''q'', 1), (''c1'', 0.1)]) ''q''
         (mk_ranked ''1'' ''c1'' [] 1) = Inr 0.1
   \<and> embed_single (table_encoder [(''q'', 1), (''c1'', 0.1)]) (r_text (mk_ranked ''2'' ''zz'' [] 1))
      = Inl (CollaboratorError ''embedding model unavailable'')
   \<and> mk_ranked ''2'' ''zz'' [] 1 \<in> set [mk_ranked ''1'' ''c1'' [] 1, mk_ranked ''2'' ''zz'' [] 1]
   \<and> evaluate default_settings (table_encoder [(''q'', 1), (''c1'', 0.1)]) ''q''
        ([mk_ranked ''1'' ''c1'' [] 1] @ mk_ranked ''2'' ''zz'' [] 1 # []) None
      = Inl (CollaboratorError ''embedding model unavailable'')"
proof -
  let ?c1 = "mk_ranked ''1'' ''c1'' [] 1" and ?cz = "mk_ranked ''2'' ''zz'' [] 1"
  let ?enc = "table_encoder [(''q'', 1), (''c1'', 0.1)]"
  let ?E = "CollaboratorError ''embedding model unavailable''"
  have ne: "[?c1, ?cz] \<noteq> []" by simp
  have q0: "embed_single (table_encoder []) ''q'' = Inl ?E"
    by (simp add: embed_single_def embed_def table_encoder_def)
  have q1: "embed_single ?enc ''q'' = Inr [1]"
    by (simp add: embed_single_def embed_def table_encoder_def)
  have c1: "combined_relevance ?enc ''q'' ?c1 = Inr 0.1"
    by (simp add: combined_relevance_def embed_single_def embed_def table_encoder_def
        cosine_similarity_def mk_ranked_def)
  then have "\<exists>x. combined_relevance ?enc ''q'' ?c1 = Inr x" by (rule exI)
  then have pre: "\<forall>p \<in> set [?c1]. \<exists>x. combined_relevance ?enc ''q'' p = Inr x"
    by (simp del: ex_simps)
  have cz: "embed_single ?enc (r_text ?cz) = Inl ?E"
    by (simp add: embed_single_def embed_def table_encoder_def mk_ranked_def)
  have mem: "?cz \<in> set [?c1, ?cz]" by simp
  from evaluate_propagates_embedding_failure
         [of "[?c1, ?cz]" "table_encoder []" "''q''" ?E default_settings None] ne q0
  have r0: "evaluate default_settings (table_encoder []) ''q'' [?c1, ?cz] None = Inl ?E"
    by blast
  from evaluate_propagates_embedding_failure
         [of _ ?enc "''q''" ?E default_settings None "[1]" "[?c1]" ?cz "[]"] q1 pre cz
  have r1: "evaluate default_settings ?enc ''q'' ([?c1] @ ?cz # []) None = Inl ?E"
    by blast
  from ne q0 r0 q1 c1 cz mem r1 show ?thesis by blast
qed

text \<open>
  Claim C10. A threshold argument of \<open>0.0\<close> is not used: \<open>evaluate\<close> with threshold
  \<open>0.0\<close> returns what it returns with no threshold argument and with the configured
  threshold, which is \<open>0.20\<close> by default. So under threshold \<open>0.0\<close> a single chunk of
  combined relevance \<open>0.1\<close> does not pass and the result is \<open>insufficient\<close>.
\<close>

theorem evaluate_zero_threshold_is_default:
  "evaluate st enc q chunks (Some 0) = evaluate st enc q chunks None
   \<and> evaluate st enc q chunks (Some 0) = evaluate st enc q chunks (Some (crag_relevance_threshold st))
   \<and> evaluate default_settings enc q chunks (Some 0) = evaluate default_settings enc q chunks (Some 0.20)
   \<and> combined_relevance (table_encoder [(''q'', 1), (''c1'', 0.1)]) ''q'' (mk_ranked ''1'' ''c1'' [] 1)
        = Inr 0.1
   \<and> evaluate default_settings (table_encoder [(''q'', 1), (''c1'', 0.1)]) ''q''
        [mk_ranked ''1'' ''c1'' [] 1] (Some 0)
        = Inr ((''insufficient'', []), [(mk_ranked ''1'' ''c1'' [] 1)\<lparr>relevance := Some 0.1\<rparr>])"
proof (intro conjI)
  show "evaluate st enc q chunks (Some 0) = evaluate st enc q chunks None"
    by (simp add: evaluate_def)
  show "evaluate st enc q chunks (Some 0) = evaluate st enc q chunks (Some (crag_relevance_threshold st))"
    by (simp add: evaluate_def)
  show "evaluate default_settings enc q chunks (Some 0) = evaluate default_settings enc q chunks (Some 0.20)"
    by (simp add: evaluate_def default_settings_def)
  show "combined_relevance (table_encoder [(''q'', 1), (''c1'', 0.1)]) ''q'' (mk_ranked ''1'' ''c1'' [] 1)
        = Inr 0.1"
    by (simp add: combined_relevance_def table_encoder_def embed_single_def embed_def
        cosine_similarity_def mk_ranked_def)
  show "evaluate default_settings (table_encoder [(''q'', 1), (''c1'', 0.1)]) ''q''
        [mk_ranked ''1'' ''c1'' [] 1] (Some 0)
        = Inr ((''insufficient'', []), [(mk_ranked ''1'' ''c1'' [] 1)\<lparr>relevance := Some 0.1\<rparr>])"
    by (simp add: evaluate_def default_settings_def table_encoder_def embed_single_def embed_def
        cosine_similarity_def mk_ranked_def)
qed
section \<open>Properties of the text segmenter\<close>

lemma rfind_from_none:
  "(\<forall>i \<le> n. take (length sub) (drop i s) \<noteq> sub) \<Longrightarrow> rfind_from s sub n = - 1"
  by (induction n) auto

lemma rfind_from_last:
  "j \<le> n \<Longrightarrow> take (length sub) (drop j s) = sub
     \<Longrightarrow> (\<forall>i. j < i \<and> i \<le> n \<longrightarrow> take (length sub) (drop i s) \<noteq> sub)
     \<Longrightarrow> rfind_from s sub n = int j"
proof (induction n)
  case 0
  then show ?case by simp
next
  case (Suc n)
  show ?case
  proof (cases "j = Suc n")
    case True
    with Suc.prems show ?thesis by simp
  next
    case False
    with Suc.prems have "j \<le> n" by simp
    moreover from Suc.prems False have "take (length sub) (drop (Suc n) s) \<noteq> sub" by auto
    ultimately show ?thesis using Suc by simp
  qed
qed

lemma rfind_from_range:
  "rfind_from s sub n = - 1 \<or>
     (\<exists>j \<le> n. rfind_from s sub n = int j \<and> take (length sub) (drop j s) = sub)"
proof (induction n)
  case 0
  show ?case by simp
next
  case (Suc n)
  show ?case
  proof (cases "take (length sub) (drop (Suc n) s) = sub")
    case True
    then have "rfind_from s sub (Suc n) = int (Suc n)" by simp
    with True show ?thesis by blast
  next
    case False
    then have "rfind_from s sub (Suc n) = rfind_from s sub n" by simp
    with Suc.IH show ?thesis by (metis le_Suc_eq)
  qed
qed

lemma rfind_cases:
  assumes "0 \<le> e"
  shows "rfind s sub e = - 1 \<or>
     (\<exists>j. rfind s sub e = int j \<and> int (j + length sub) \<le> e \<and> j + length sub \<le> length s
          \<and> take (length sub) (drop j s) = sub)"
proof -
  let ?e' = "min e (int (length s))"
  show ?thesis
  proof (cases "?e' < int (length sub)")
    case True
    then show ?thesis using assms by (simp add: rfind_def Let_def)
  next
    case False
    define n where "n = nat (?e' - int (length sub))"
    have r: "rfind s sub e = rfind_from s sub n"
      using assms False by (simp add: rfind_def Let_def n_def)
    have n1: "int n + int (length sub) \<le> e" and n2: "n + length sub \<le> length s"
      using False unfolding n_def by linarith+
    from rfind_from_range[of s sub n] show ?thesis
    proof
      assume "rfind_from s sub n = - 1"
      then show ?thesis using r by simp
    next
      assume "\<exists>j \<le> n. rfind_from s sub n = int j \<and> take (length sub) (drop j s) = sub"
      then obtain j where j: "j \<le> n" "rfind_from s sub n = int j"
        "take (length sub) (drop j s) = sub" by blast
      from j(1) n1 n2 have "int (j + length sub) \<le> e" "j + length sub \<le> length s" by linarith+
      with j r show ?thesis by auto
    qed
  qed
qed

lemma match_set:
  assumes "take (length sub) (drop i s) = sub" and "i + length sub \<le> m"
  shows "set sub \<subseteq> set (take m s)"
proof -
  have "set sub = set (take (length sub) (drop i s))" using assms(1) by simp
  also have "take (length sub) (drop i s) = drop i (take (i + length sub) s)"
    by (simp add: drop_take add.commute)
  also have "set \<dots> \<subseteq> set (take (i + length sub) s)" by (rule set_drop_subset)
  also have "\<dots> \<subseteq> set (take m s)" using assms(2) by (rule set_take_subset_set_take)
  finally show ?thesis .
qed

lemma rfind_absent:
  assumes "0 \<le> e" and "c \<in> set sub" and "c \<notin> set (take (nat e) s)"
  shows "rfind s sub e = - 1"
proof (rule ccontr)
  assume ne: "rfind s sub e \<noteq> - 1"
  with rfind_cases[OF assms(1), of s sub] obtain j where
    j: "int (j + length sub) \<le> e" "take (length sub) (drop j s) = sub" by blast
  from j(1) have "j + length sub \<le> nat e" by linarith
  from match_set[OF j(2) this] assms(2,3) show False by auto
qed

declare split_loop.simps [simp del]






lemma split_loop_0: "int (length t) > cs \<Longrightarrow> split_loop 0 cs ov t chunks = None"
  by (subst split_loop.simps) simp

lemma split_loop_Suc:
  "int (length t) > cs \<Longrightarrow>
     split_loop (Suc fuel) cs ov t chunks =
       split_loop fuel cs ov
         (slice_from t (max 0 (find_split boundaries t cs - ov)))
         (if strip (slice_to t (find_split boundaries t cs)) \<noteq> []
          then chunks @ [strip (slice_to t (find_split boundaries t cs))] else chunks)"
  by (subst split_loop.simps) (simp add: Let_def)



lemma split_loop_stuck:
  assumes "int (length t) > cs" and "find_split boundaries t cs \<le> ov"
  shows "split_loop fuel cs ov t chunks = None"
proof (induction fuel arbitrary: chunks)
  case 0
  show ?case using assms(1) by (simp add: split_loop_0)
next
  case (Suc fuel)
  have "slice_from t (max 0 (find_split boundaries t cs - ov)) = t"
    using assms(2) by (simp add: slice_from_def max_def)
  then show ?case
    using assms(1) Suc.IH by (simp add: split_loop_Suc)
qed

lemma strip_Nil_iff: "strip s = [] \<longleftrightarrow> (\<forall>c \<in> set s. isspace c)"
proof
  assume "strip s = []"
  then have "dropWhile isspace (rev (dropWhile isspace s)) = []" by (simp add: strip_def)
  then have all: "\<forall>c \<in> set (dropWhile isspace s). isspace c"
    unfolding dropWhile_eq_Nil_conv by simp
  have "dropWhile isspace s = []"
  proof (rule ccontr)
    assume ne: "dropWhile isspace s \<noteq> []"
    then have "\<not> isspace (hd (dropWhile isspace s))" by (rule hd_dropWhile)
    moreover from ne have "hd (dropWhile isspace s) \<in> set (dropWhile isspace s)" by simp
    ultimately show False using all by blast
  qed
  then show "\<forall>c \<in> set s. isspace c" unfolding dropWhile_eq_Nil_conv .
next
  assume "\<forall>c \<in> set s. isspace c"
  then have "dropWhile isspace s = []" unfolding dropWhile_eq_Nil_conv .
  then show "strip s = []" by (simp add: strip_def del: dropWhile_eq_Nil_conv)
qed

lemma stuck_text_find_split:
  "find_split boundaries (''a '' @ replicate 600 (CHR ''x'')) 512 = 2"
proof -
  let ?T = "''a '' @ replicate 600 (CHR ''x'')"
  have e: "(0::int) \<le> 512" by simp
  have nl: "CHR 0x0A \<notin> set (take (nat 512) ?T)" by (auto dest: in_set_takeD)
  have dot: "CHR ''.'' \<notin> set (take (nat 512) ?T)" by (auto dest: in_set_takeD)
  have 1: "rfind ?T [CHR 0x0A, CHR 0x0A] 512 = - 1" by (rule rfind_absent[OF e _ nl]) simp
  have 2: "rfind ?T [CHR 0x0A] 512 = - 1" by (rule rfind_absent[OF e _ nl]) simp
  have 3: "rfind ?T ''. '' 512 = - 1" by (rule rfind_absent[OF e _ dot]) simp
  have later: "take (length '' '') (drop i ?T) \<noteq> '' ''" if "1 < i \<and> i \<le> 511" for i
  proof -
    define k where "k = i - 2"
    with that have k: "i = Suc (Suc k)" "k < 600" by arith+
    then have "drop i ?T = replicate (600 - k) (CHR ''x'')" by simp
    moreover from k have "600 - k = Suc (599 - k)" by simp
    ultimately show ?thesis by simp
  qed
  have "rfind_from ?T '' '' 511 = int 1"
    by (rule rfind_from_last) (use later in simp_all)
  then have 4: "rfind ?T '' '' 512 = 1" by (simp add: rfind_def Let_def)
  show ?thesis using 1 2 3 4 by (simp add: boundaries_def)
qed

text \<open>
  When the split point is at most \<open>overlap\<close>, the next text is the whole current text
  again, and the loop never ends.
\<close>

lemma recursive_split_stuck:
  assumes "strip txt \<noteq> []" and "cs < int (length txt)" and "find_split boundaries txt cs \<le> ov"
  shows "recursive_split fuel txt cs ov = None"
proof -
  from assms(1) have "txt \<noteq> []" by (auto simp: strip_def)
  with assms show ?thesis by (simp add: recursive_split_def split_loop_stuck)
qed

text \<open>
  Ordinary prose is enough: with \<open>maxSize = 12\<close> and \<open>overlap = 3\<close> the third text
  to process starts with \<open>d. \<close>, the sentence end is found at offset 1 again and
  again, and the split point 3 never exceeds the overlap.
\<close>

lemma prose_text_never_returns:
  "recursive_split fuel ''hello world. this is a test of the splitter'' 12 3 = None"
proof -
  let ?T0 = "''hello world. this is a test of the splitter''"
  let ?T1 = "''lo world. this is a test of the splitter''"
  let ?T2 = "''d. this is a test of the splitter''"
  have i0: "find_split boundaries ?T0 12 = 6" by code_simp
  have i1: "find_split boundaries ?T1 12 = 10" by code_simp
  have i2: "find_split boundaries ?T2 12 \<le> 3" by code_simp
  have n0: "slice_from ?T0 (max 0 (6 - 3)) = ?T1" by (simp add: slice_from_def eval_nat_numeral)
  have n1: "slice_from ?T1 (max 0 (10 - 3)) = ?T2" by (simp add: slice_from_def eval_nat_numeral)
  have l0: "12 < int (length ?T0)" and l1: "12 < int (length ?T1)" and l2: "12 < int (length ?T2)"
    by simp_all
  have stuck: "split_loop f 12 3 ?T2 chunks = None" for f chunks
    using l2 i2 by (rule split_loop_stuck)
  have s1: "split_loop f 12 3 ?T1 chunks = None" for f chunks
  proof (cases f)
    case 0
    then show ?thesis using l1 by (simp only: split_loop_0)
  next
    case (Suc f')
    show ?thesis unfolding Suc split_loop_Suc[OF l1] i1 n1 by (rule stuck)
  qed
  have s0: "split_loop f 12 3 ?T0 chunks = None" for f chunks
  proof (cases f)
    case 0
    then show ?thesis using l0 by (simp only: split_loop_0)
  next
    case (Suc f')
    show ?thesis unfolding Suc split_loop_Suc[OF l0] i0 n0 by (rule s1)
  qed
  have "strip ?T0 \<noteq> []" by (simp add: strip_def isspace_def)
  then show ?thesis using s0 by (simp add: recursive_split_def)
qed

text \<open>
  Claim C3 says that the segmenter returns on every text for every \<open>maxSize > 0\<close> and
  \<open>overlap \<ge> 0\<close>, the configured 512 and 64 in particular. On the text \<open>a\<close>, a space
  and 600 times \<open>x\<close>, with the configured sizes, the rightmost boundary of the first 512
  characters is the space at offset 1, so the split point is 2, the next text starts at
  \<open>max(0, 2 - 64) = 0\<close>, and the loop is still running after any number of iterations.
\<close>

theorem segment_default_sizes_never_returns:
  "0 < cfg_chunk_size default_settings \<and> 0 \<le> cfg_chunk_overlap default_settings
   \<and> recursive_split fuel (''a '' @ replicate 600 (CHR ''x''))
         (cfg_chunk_size default_settings) (cfg_chunk_overlap default_settings) = None"
proof -
  let ?T = "''a '' @ replicate 600 (CHR ''x'')"
  have "\<not> isspace (CHR ''a'')" by (simp add: isspace_def)
  then have "strip ?T \<noteq> []" by (auto simp: strip_Nil_iff)
  moreover have "512 < int (length ?T)" by simp
  moreover have "find_split boundaries ?T 512 \<le> 64" unfolding stuck_text_find_split by simp
  ultimately have "recursive_split fuel ?T 512 64 = None" by (rule recursive_split_stuck)
  then show ?thesis by (simp add: default_settings_def)
qed




section \<open>Properties of the lexical index\<close>

lemma rebuild_bm25_lists [simp]:
  "chunk_ids (snd (rebuild_bm25 lib s)) = chunk_ids s"
  "chunk_texts (snd (rebuild_bm25 lib s)) = chunk_texts s"
  "chunk_metadatas (snd (rebuild_bm25 lib s)) = chunk_metadatas s"
  "index_file (snd (rebuild_bm25 lib s)) = index_file s"
  by (auto simp: rebuild_bm25_def split: sum.splits)

lemma save_lists [simp]:
  "chunk_ids (save s) = chunk_ids s"
  "chunk_texts (save s) = chunk_texts s"
  "chunk_metadatas (save s) = chunk_metadatas s"
  "index_file (save s) = Saved (chunk_ids s) (chunk_texts s) (chunk_metadatas s)"
  by (simp_all add: save_def)

lemma append_chunks_lists [simp]:
  "chunk_ids (append_chunks s chunks) = chunk_ids s @ map ch_id chunks"
  "chunk_texts (append_chunks s chunks) = chunk_texts s @ map ch_text chunks"
  "chunk_metadatas (append_chunks s chunks) = chunk_metadatas s @ map ch_metadata chunks"
  "index_file (append_chunks s chunks) = index_file s"
  by (induction s chunks rule: append_chunks.induct) simp_all

text \<open>A method that rebuilds and then saves: the lists are those before the rebuild.\<close>

lemma rebuild_then_save:
  assumes "r = (case rebuild_bm25 lib s of (Some e, s') \<Rightarrow> (Some e, s') | (None, s') \<Rightarrow> (None, save s'))"
  shows "chunk_ids (snd r) = chunk_ids s" "chunk_texts (snd r) = chunk_texts s"
    "chunk_metadatas (snd r) = chunk_metadatas s"
    "index_file (snd r) = index_file s \<or>
       index_file (snd r) = Saved (chunk_ids s) (chunk_texts s) (chunk_metadatas s)"
proof -
  obtain e s' where rs: "rebuild_bm25 lib s = (e, s')" by (cases "rebuild_bm25 lib s")
  from rs have l: "chunk_ids s' = chunk_ids s" "chunk_texts s' = chunk_texts s"
     "chunk_metadatas s' = chunk_metadatas s" "index_file s' = index_file s"
    using rebuild_bm25_lists[of lib s] by simp_all
  show "chunk_ids (snd r) = chunk_ids s" "chunk_texts (snd r) = chunk_texts s"
    "chunk_metadatas (snd r) = chunk_metadatas s"
    "index_file (snd r) = index_file s \<or>
       index_file (snd r) = Saved (chunk_ids s) (chunk_texts s) (chunk_metadatas s)"
    using assms rs l by (cases e; simp)+
qed

lemma rebuild_then_save_ok:
  assumes "r = (case rebuild_bm25 lib s of (Some e, s') \<Rightarrow> (Some e, s') | (None, s') \<Rightarrow> (None, save s'))"
    and "fst r = None"
  shows "persisted (snd r)"
proof -
  obtain e s' where rs: "rebuild_bm25 lib s = (e, s')" by (cases "rebuild_bm25 lib s")
  from assms rs show ?thesis by (cases e) (simp_all add: persisted_def save_def)
qed

lemma file_step_aligned:
  "file_step s s' \<Longrightarrow> aligned s' \<Longrightarrow> file_aligned (index_file s) \<Longrightarrow> file_aligned (index_file s')"
  by (auto simp: file_step_def aligned_def file_aligned_def)

lemma add_chunks_lists:
  "chunk_ids (snd (add_chunks lib s chunks)) = chunk_ids s @ map ch_id chunks"
  "chunk_texts (snd (add_chunks lib s chunks)) = chunk_texts s @ map ch_text chunks"
  "chunk_metadatas (snd (add_chunks lib s chunks)) = chunk_metadatas s @ map ch_metadata chunks"
  "file_step s (snd (add_chunks lib s chunks))"
  unfolding file_step_def
  using rebuild_then_save[of "add_chunks lib s chunks" lib "append_chunks s chunks"]
  by (simp_all add: add_chunks_def)

lemma rebuild_from_store_lists:
  "chunk_ids (snd (rebuild_from_store lib s all_chunks)) = map r_id all_chunks"
  "chunk_texts (snd (rebuild_from_store lib s all_chunks)) = map r_text all_chunks"
  "chunk_metadatas (snd (rebuild_from_store lib s all_chunks)) = map r_metadata all_chunks"
  "file_step s (snd (rebuild_from_store lib s all_chunks))"
  unfolding file_step_def
  using rebuild_then_save[of "rebuild_from_store lib s all_chunks" lib
      "s\<lparr>chunk_ids := map r_id all_chunks, chunk_texts := map r_text all_chunks,
         chunk_metadatas := map r_metadata all_chunks\<rparr>"]
  by (simp_all add: rebuild_from_store_def)

lemma add_chunks_persisted:
  "fst (add_chunks lib s chunks) = None \<Longrightarrow> persisted (snd (add_chunks lib s chunks))"
  by (rule rebuild_then_save_ok[of _ lib "append_chunks s chunks"]) (simp_all add: add_chunks_def)

lemma rebuild_from_store_persisted:
  "fst (rebuild_from_store lib s all_chunks) = None \<Longrightarrow>
   persisted (snd (rebuild_from_store lib s all_chunks))"
  by (rule rebuild_then_save_ok[of _ lib
        "s\<lparr>chunk_ids := map r_id all_chunks, chunk_texts := map r_text all_chunks,
           chunk_metadatas := map r_metadata all_chunks\<rparr>"])
     (simp_all add: rebuild_from_store_def)

lemma select_enumerate_aux:
  "length xs = length ms \<Longrightarrow>
     map (\<lambda>i. xs ! (i - n)) (map fst [p \<leftarrow> enumerate n ms. P (snd p)])
       = map fst [p \<leftarrow> zip xs ms. P (snd p)]"
proof (induction xs ms arbitrary: n rule: list_induct2)
  case Nil
  show ?case by simp
next
  case (Cons x xs m ms)
  have ge: "Suc n \<le> i" if "i \<in> set (map fst [p \<leftarrow> enumerate (Suc n) ms. P (snd p)])" for i
    using that by (auto simp: in_set_enumerate_eq)
  have "map (\<lambda>i. (x # xs) ! (i - n)) (map fst [p \<leftarrow> enumerate (Suc n) ms. P (snd p)])
      = map (\<lambda>i. xs ! (i - Suc n)) (map fst [p \<leftarrow> enumerate (Suc n) ms. P (snd p)])"
  proof (rule map_cong[OF refl])
    fix i assume "i \<in> set (map fst [p \<leftarrow> enumerate (Suc n) ms. P (snd p)])"
    then have "Suc n \<le> i" by (rule ge)
    then have "i - n = Suc (i - Suc n)" by simp
    then show "(x # xs) ! (i - n) = xs ! (i - Suc n)" by simp
  qed
  also have "\<dots> = map fst [p \<leftarrow> zip xs ms. P (snd p)]" by (rule Cons.IH)
  finally show ?case by simp
qed

lemma select_keep:
  assumes "length xs = length ms"
  shows "select xs (map fst [(i, m) \<leftarrow> enumerate 0 ms. P m]) = Inr (map fst [p \<leftarrow> zip xs ms. P (snd p)])"
proof -
  have eq: "[(i, m) \<leftarrow> enumerate 0 ms. P m] = [p \<leftarrow> enumerate 0 ms. P (snd p)]"
    by (simp add: case_prod_unfold)
  have "\<forall>i \<in> set (map fst [p \<leftarrow> enumerate 0 ms. P (snd p)]). i < length xs"
    using assms by (auto simp: in_set_enumerate_eq)
  moreover have "map (\<lambda>i. xs ! i) (map fst [p \<leftarrow> enumerate 0 ms. P (snd p)])
      = map fst [p \<leftarrow> zip xs ms. P (snd p)]"
    using select_enumerate_aux[OF assms, of 0 P] by simp
  ultimately show ?thesis unfolding eq select_def by simp
qed

lemma zip_filter_snd:
  "length xs = length ms \<Longrightarrow> map snd [p \<leftarrow> zip xs ms. P (snd p)] = filter P ms"
  by (induction xs ms rule: list_induct2) auto

lemma keep_length:
  "length (map fst [(i, m) \<leftarrow> enumerate 0 ms. P m]) = length (filter P ms)"
proof -
  have "map snd [p \<leftarrow> zip [0..<length ms] ms. P (snd p)] = filter P ms"
    by (rule zip_filter_snd) simp
  then have "length [p \<leftarrow> zip [0..<length ms] ms. P (snd p)] = length (filter P ms)"
    by (metis length_map)
  then show ?thesis by (simp add: case_prod_unfold enumerate_eq_zip)
qed

lemma filter_self_iff: "length (filter P xs) = length xs \<longleftrightarrow> (\<forall>x \<in> set xs. P x)"
  by (metis filter_id_conv length_filter_less less_irrefl)

lemma zip3_filter:
  "length xs = length ts \<Longrightarrow> length ts = length ms \<Longrightarrow>
     zip (map fst [p \<leftarrow> zip xs ms. P (snd p)]) (zip (map fst [p \<leftarrow> zip ts ms. P (snd p)]) (filter P ms))
       = [e \<leftarrow> zip xs (zip ts ms). P (snd (snd e))]"
  by (induction xs ts ms rule: list_induct3) auto

lemma delete_document_no_match:
  assumes "aligned s" and "\<forall>m \<in> set (chunk_metadatas s). \<not> of_document d m"
  shows "delete_document lib s d = (None, s)"
proof -
  let ?P = "\<lambda>m. map_of m ''document_id'' \<noteq> Some d"
  have "length (map fst [(i, m) \<leftarrow> enumerate 0 (chunk_metadatas s). ?P m])
      = length (filter ?P (chunk_metadatas s))" by (rule keep_length)
  also have "\<dots> = length (chunk_metadatas s)"
    using assms(2) by (simp add: filter_self_iff of_document_def)
  also have "\<dots> = length (chunk_ids s)" using assms(1) by (simp add: aligned_def)
  finally show ?thesis by (simp add: delete_document_def Let_def)
qed

text \<open>With a matching entry and aligned sequences the three selections succeed.\<close>

lemma delete_document_match:
  assumes "aligned s" and "\<not> (\<forall>m \<in> set (chunk_metadatas s). \<not> of_document d m)"
  shows "delete_document lib s d =
        (case rebuild_bm25 lib
                (s\<lparr>chunk_ids := map fst [p \<leftarrow> zip (chunk_ids s) (chunk_metadatas s). \<not> of_document d (snd p)],
                   chunk_texts := map fst [p \<leftarrow> zip (chunk_texts s) (chunk_metadatas s). \<not> of_document d (snd p)],
                   chunk_metadatas := [m \<leftarrow> chunk_metadatas s. \<not> of_document d m]\<rparr>) of
           (Some e, s') \<Rightarrow> (Some e, s') | (None, s') \<Rightarrow> (None, save s'))"
proof -
  let ?P = "\<lambda>m. \<not> of_document d m"
  let ?ids = "map fst [p \<leftarrow> zip (chunk_ids s) (chunk_metadatas s). ?P (snd p)]"
  let ?texts = "map fst [p \<leftarrow> zip (chunk_texts s) (chunk_metadatas s). ?P (snd p)]"
  let ?metas = "filter ?P (chunk_metadatas s)"
  from assms have l1: "length (chunk_ids s) = length (chunk_metadatas s)"
    and l2: "length (chunk_texts s) = length (chunk_metadatas s)" by (simp_all add: aligned_def)
  let ?keep = "map fst [(i, m) \<leftarrow> enumerate 0 (chunk_metadatas s).
                  map_of m ''document_id'' \<noteq> Some d]"
  have "length ?keep = length (filter (\<lambda>m. map_of m ''document_id'' \<noteq> Some d) (chunk_metadatas s))"
    by (rule keep_length)
  also have "\<dots> \<noteq> length (chunk_metadatas s)"
    using assms(2) unfolding filter_self_iff by (simp add: of_document_def)
  finally have ne: "length ?keep \<noteq> length (chunk_ids s)" using l1 by simp
  have s1: "select (chunk_ids s) ?keep = Inr ?ids"
    using select_keep[OF l1, of "\<lambda>m. map_of m ''document_id'' \<noteq> Some d"]
    by (simp add: of_document_def)
  have s2: "select (chunk_texts s) ?keep = Inr ?texts"
    using select_keep[OF l2, of "\<lambda>m. map_of m ''document_id'' \<noteq> Some d"]
    by (simp add: of_document_def)
  have s3: "select (chunk_metadatas s) ?keep = Inr ?metas"
  proof -
    have "select (chunk_metadatas s) ?keep
        = Inr (map fst [p \<leftarrow> zip (chunk_metadatas s) (chunk_metadatas s). ?P (snd p)])"
      using select_keep[OF refl, of "chunk_metadatas s" "\<lambda>m. map_of m ''document_id'' \<noteq> Some d"]
      by (simp add: of_document_def)
    moreover have "map fst [p \<leftarrow> zip ms ms. ?P (snd p)] = filter ?P ms" for ms
      by (induction ms) auto
    ultimately show ?thesis by simp
  qed
  show ?thesis using ne s1 s2 s3 by (simp add: delete_document_def Let_def)
qed

lemma delete_document_lists:
  assumes "aligned s"
  shows "chunk_ids (snd (delete_document lib s d))
           = map fst [p \<leftarrow> zip (chunk_ids s) (chunk_metadatas s). \<not> of_document d (snd p)]"
    and "chunk_texts (snd (delete_document lib s d))
           = map fst [p \<leftarrow> zip (chunk_texts s) (chunk_metadatas s). \<not> of_document d (snd p)]"
    and "chunk_metadatas (snd (delete_document lib s d))
           = [m \<leftarrow> chunk_metadatas s. \<not> of_document d m]"
    and "file_step s (snd (delete_document lib s d))"
proof -
  let ?P = "\<lambda>m. \<not> of_document d m"
  let ?ids = "map fst [p \<leftarrow> zip (chunk_ids s) (chunk_metadatas s). ?P (snd p)]"
  let ?texts = "map fst [p \<leftarrow> zip (chunk_texts s) (chunk_metadatas s). ?P (snd p)]"
  let ?metas = "filter ?P (chunk_metadatas s)"
  from assms have l1: "length (chunk_ids s) = length (chunk_metadatas s)"
    and l2: "length (chunk_texts s) = length (chunk_metadatas s)" by (simp_all add: aligned_def)
  have goal: "chunk_ids (snd (delete_document lib s d)) = ?ids
      \<and> chunk_texts (snd (delete_document lib s d)) = ?texts
      \<and> chunk_metadatas (snd (delete_document lib s d)) = ?metas
      \<and> file_step s (snd (delete_document lib s d))"
  proof (cases "\<forall>m \<in> set (chunk_metadatas s). ?P m")
    case True
    then have r: "delete_document lib s d = (None, s)"
      using assms by (intro delete_document_no_match) simp_all
    have all: "\<forall>p \<in> set (zip xs (chunk_metadatas s)). ?P (snd p)" for xs :: "string list"
      using True by (auto dest: set_zip_rightD)
    have "?ids = chunk_ids s" "?texts = chunk_texts s"
      using all[of "chunk_ids s"] all[of "chunk_texts s"] l1 l2 by simp_all
    moreover have "?metas = chunk_metadatas s" using True by simp
    ultimately show ?thesis using r by (simp add: file_step_def)
  next
    case False
    from rebuild_then_save[OF delete_document_match[OF assms False]] show ?thesis
      by (auto simp: file_step_def)
  qed
  from goal show "chunk_ids (snd (delete_document lib s d)) = ?ids"
    and "chunk_texts (snd (delete_document lib s d)) = ?texts"
    and "chunk_metadatas (snd (delete_document lib s d)) = ?metas"
    and "file_step s (snd (delete_document lib s d))" by simp_all
qed

text \<open>
  A delete that returns normally leaves the file holding the lists of the state: it has
  either saved them or, with no matching entry, left a state whose file held them.
\<close>

lemma delete_document_persisted:
  assumes "aligned s" and "persisted s" and "fst (delete_document lib s d) = None"
  shows "persisted (snd (delete_document lib s d))"
proof (cases "\<forall>m \<in> set (chunk_metadatas s). \<not> of_document d m")
  case True
  then have "delete_document lib s d = (None, s)"
    using assms(1) by (intro delete_document_no_match) simp_all
  with assms(2) show ?thesis by simp
next
  case False
  from rebuild_then_save_ok[OF delete_document_match[OF assms(1) False] assms(3)]
  show ?thesis .
qed




lemma load_Saved:
  assumes "index_file s = Saved ids texts metas"
  shows "chunk_ids (load lib s) = ids" and "chunk_texts (load lib s) = texts"
    and "chunk_metadatas (load lib s) = metas"
    and "index_file (load lib s) = Saved ids texts metas"
  using assms by (simp_all add: load_def)

lemma load_no_file:
  "index_file s = Missing \<or> index_file s = Corrupt \<Longrightarrow> load lib s = s"
  by (auto simp: load_def)

lemma bm25_init_Saved:
  "chunk_ids (bm25_init lib (Saved ids texts metas)) = ids"
  "chunk_texts (bm25_init lib (Saved ids texts metas)) = texts"
  "chunk_metadatas (bm25_init lib (Saved ids texts metas)) = metas"
  "index_file (bm25_init lib (Saved ids texts metas)) = Saved ids texts metas"
  unfolding bm25_init_def by (simp_all add: load_Saved)

lemma restart_persisted:
  assumes "persisted s"
  shows "chunk_ids (bm25_init lib (index_file s)) = chunk_ids s"
    and "chunk_texts (bm25_init lib (index_file s)) = chunk_texts s"
    and "chunk_metadatas (bm25_init lib (index_file s)) = chunk_metadatas s"
    and "entries (bm25_init lib (index_file s)) = entries s"
  using assms by (simp_all add: persisted_def bm25_init_Saved entries_def)

lemma load_aligned:
  assumes "aligned s" and "file_aligned (index_file s)"
  shows "aligned (load lib s)" and "file_aligned (index_file (load lib s))"
  using assms by (auto simp: load_def aligned_def file_aligned_def split: index_file.splits)

lemma bm25_init_aligned:
  assumes "file_aligned f"
  shows "aligned (bm25_init lib f)" and "file_aligned (index_file (bm25_init lib f))"
  unfolding bm25_init_def using assms by (intro load_aligned; simp add: aligned_def)+

lemma add_chunks_aligned: "aligned s \<Longrightarrow> aligned (snd (add_chunks lib s chunks))"
  by (simp add: aligned_def add_chunks_lists)

lemma delete_document_aligned: "aligned s \<Longrightarrow> aligned (snd (delete_document lib s d))"
proof -
  assume a: "aligned s"
  let ?P = "\<lambda>m. \<not> of_document d m"
  have len: "length (map fst [p \<leftarrow> zip xs ms. ?P (snd p)]) = length (filter ?P ms)"
    if "length xs = length ms" for xs :: "string list" and ms :: "metadata list"
    using zip_filter_snd[OF that, of ?P] by (metis length_map)
  from a have "length (chunk_ids s) = length (chunk_metadatas s)"
    "length (chunk_texts s) = length (chunk_metadatas s)" by (simp_all add: aligned_def)
  from len[OF this(1)] len[OF this(2)] show ?thesis
    unfolding aligned_def delete_document_lists[OF a] by simp
qed

lemma rebuild_from_store_aligned: "aligned (snd (rebuild_from_store lib s all_chunks))"
  by (simp add: aligned_def rebuild_from_store_lists)

lemma reachable_aligned: "reachable lib s \<Longrightarrow> aligned s \<and> file_aligned (index_file s)"
proof (induction rule: reachable.induct)
  case fresh
  show ?case using bm25_init_aligned[of Missing lib] by (simp add: file_aligned_def)
next
  case unreadable
  show ?case using bm25_init_aligned[of Corrupt lib] by (simp add: file_aligned_def)
next
  case (added s chunks)
  then show ?case
    using add_chunks_aligned[of s lib chunks]
      file_step_aligned[OF add_chunks_lists(4)[of s lib chunks]] by simp
next
  case (deleted s doc_id)
  then show ?case
    using delete_document_aligned[of s lib doc_id]
      file_step_aligned[OF delete_document_lists(4)[of s lib doc_id]] by simp
next
  case (rebuilt s all_chunks)
  then show ?case
    using rebuild_from_store_aligned[of lib s all_chunks]
      file_step_aligned[OF rebuild_from_store_lists(4)[of s lib all_chunks]] by simp
next
  case (restarted s)
  then show ?case using bm25_init_aligned[of "index_file s" lib] by simp
qed

text \<open>
  Claim C5. The three sequences of the index have one length in the state constructed
  over a missing or unreadable file, where they are empty, and every operation keeps it
  so, entry for entry: \<open>add_chunks\<close> appends the chunks' triples in order,
  \<open>delete_document\<close> keeps the entries of the other documents in order,
  \<open>rebuild_from_store\<close> makes the entries those of the dump, and loading a persisted file
  makes the three sequences the three lists of the file, in the file's order. A save
  writes the three lists of the state, so a load after it gives the same entries, and so
  does a restart after any method that has returned normally. The lists of the file are
  aligned because a method only ever writes the lists of the state it leaves. So the
  sequences are aligned in every state a store can reach, restarts over its own file
  included.
\<close>

theorem index_sequences_stay_aligned:
  "aligned (bm25_init lib Missing) \<and> entries (bm25_init lib Missing) = []
   \<and> aligned (bm25_init lib Corrupt) \<and> entries (bm25_init lib Corrupt) = []
   \<and> (aligned s \<longrightarrow>
         aligned (snd (add_chunks lib s chunks))
       \<and> entries (snd (add_chunks lib s chunks))
           = entries s @ map (\<lambda>c. (ch_id c, ch_text c, ch_metadata c)) chunks
       \<and> aligned (snd (delete_document lib s d))
       \<and> entries (snd (delete_document lib s d))
           = [e \<leftarrow> entries s. \<not> of_document d (snd (snd e))])
   \<and> aligned (snd (rebuild_from_store lib s all_chunks))
   \<and> entries (snd (rebuild_from_store lib s all_chunks))
       = map (\<lambda>c. (r_id c, r_text c, r_metadata c)) all_chunks
   \<and> (index_file s = Saved ids texts metas \<longrightarrow>
         chunk_ids (load lib s) = ids
       \<and> chunk_texts (load lib s) = texts
       \<and> chunk_metadatas (load lib s) = metas
       \<and> entries (load lib s) = zip ids (zip texts metas)
       \<and> index_file (load lib s) = Saved ids texts metas)
   \<and> (index_file s = Missing \<or> index_file s = Corrupt \<longrightarrow> load lib s = s)
   \<and> chunk_ids (bm25_init lib (Saved ids texts metas)) = ids
   \<and> chunk_texts (bm25_init lib (Saved ids texts metas)) = texts
   \<and> chunk_metadatas (bm25_init lib (Saved ids texts metas)) = metas
   \<and> entries (bm25_init lib (Saved ids texts metas)) = zip ids (zip texts metas)
   \<and> index_file (save s) = Saved (chunk_ids s) (chunk_texts s) (chunk_metadatas s)
   \<and> entries (save s) = entries s
   \<and> entries (load lib (save s)) = entries s
   \<and> entries (bm25_init lib (index_file (save s))) = entries s
   \<and> (fst (add_chunks lib s chunks) = None \<longrightarrow>
         persisted (snd (add_chunks lib s chunks))
       \<and> entries (bm25_init lib (index_file (snd (add_chunks lib s chunks))))
           = entries (snd (add_chunks lib s chunks)))
   \<and> (fst (rebuild_from_store lib s all_chunks) = None \<longrightarrow>
         persisted (snd (rebuild_from_store lib s all_chunks))
       \<and> entries (bm25_init lib (index_file (snd (rebuild_from_store lib s all_chunks))))
           = entries (snd (rebuild_from_store lib s all_chunks)))
   \<and> (aligned s \<and> persisted s \<and> fst (delete_document lib s d) = None \<longrightarrow>
         persisted (snd (delete_document lib s d))
       \<and> entries (bm25_init lib (index_file (snd (delete_document lib s d))))
           = entries (snd (delete_document lib s d)))
   \<and> (aligned s \<and> file_aligned (index_file s) \<longrightarrow>
         aligned (load lib s)
       \<and> aligned (bm25_init lib (index_file s))
       \<and> file_aligned (index_file (snd (add_chunks lib s chunks)))
       \<and> file_aligned (index_file (snd (delete_document lib s d)))
       \<and> file_aligned (index_file (snd (rebuild_from_store lib s all_chunks))))
   \<and> (reachable lib s \<longrightarrow> aligned s \<and> file_aligned (index_file s))"
proof (intro conjI impI)
  show "aligned (bm25_init lib Missing)"
    by (rule bm25_init_aligned) (simp add: file_aligned_def)
  show "entries (bm25_init lib Missing) = []"
    by (simp add: bm25_init_def load_def entries_def)
  show "aligned (bm25_init lib Corrupt)"
    by (rule bm25_init_aligned) (simp add: file_aligned_def)
  show "entries (bm25_init lib Corrupt) = []"
    by (simp add: bm25_init_def load_def entries_def)
  show "aligned (snd (rebuild_from_store lib s all_chunks))"
    by (rule rebuild_from_store_aligned)
  show "entries (snd (rebuild_from_store lib s all_chunks))
       = map (\<lambda>c. (r_id c, r_text c, r_metadata c)) all_chunks"
    by (simp add: entries_def rebuild_from_store_lists zip_map_map) (induction all_chunks; simp)
  show "chunk_ids (bm25_init lib (Saved ids texts metas)) = ids"
    "chunk_texts (bm25_init lib (Saved ids texts metas)) = texts"
    "chunk_metadatas (bm25_init lib (Saved ids texts metas)) = metas"
    by (rule bm25_init_Saved)+
  show "entries (bm25_init lib (Saved ids texts metas)) = zip ids (zip texts metas)"
    by (simp add: entries_def bm25_init_Saved)
  show "index_file (save s) = Saved (chunk_ids s) (chunk_texts s) (chunk_metadatas s)"
    by (simp add: save_def)
  show "entries (save s) = entries s" by (simp add: entries_def)
  have ps: "persisted (save s)" by (simp add: persisted_def save_def)
  have "entries (load lib (save s)) = zip (chunk_ids s) (zip (chunk_texts s) (chunk_metadatas s))"
    unfolding entries_def using load_Saved[of "save s" "chunk_ids s" "chunk_texts s"
        "chunk_metadatas s" lib] by (simp add: save_def)
  then show "entries (load lib (save s)) = entries s" by (simp add: entries_def)
  show "entries (bm25_init lib (index_file (save s))) = entries s"
    using restart_persisted(4)[OF ps, of lib] by (simp add: entries_def)
next
  assume a: "aligned s"
  show "aligned (snd (add_chunks lib s chunks))" using a by (rule add_chunks_aligned)
  show "aligned (snd (delete_document lib s d))" using a by (rule delete_document_aligned)
  have "zip (map ch_id chunks) (zip (map ch_text chunks) (map ch_metadata chunks))
      = map (\<lambda>c. (ch_id c, ch_text c, ch_metadata c)) chunks"
    by (induction chunks) simp_all
  with a show "entries (snd (add_chunks lib s chunks))
           = entries s @ map (\<lambda>c. (ch_id c, ch_text c, ch_metadata c)) chunks"
    by (simp add: entries_def add_chunks_lists aligned_def)
  from a have l: "length (chunk_ids s) = length (chunk_texts s)"
    "length (chunk_texts s) = length (chunk_metadatas s)" by (simp_all add: aligned_def)
  show "entries (snd (delete_document lib s d)) = [e \<leftarrow> entries s. \<not> of_document d (snd (snd e))]"
    unfolding entries_def delete_document_lists[OF a] using l by (rule zip3_filter)
next
  assume f: "index_file s = Saved ids texts metas"
  from load_Saved[OF f, of lib]
  show "chunk_ids (load lib s) = ids" "chunk_texts (load lib s) = texts"
    "chunk_metadatas (load lib s) = metas" "index_file (load lib s) = Saved ids texts metas"
    by simp_all
  from load_Saved[OF f, of lib]
  show "entries (load lib s) = zip ids (zip texts metas)" by (simp add: entries_def)
next
  assume "index_file s = Missing \<or> index_file s = Corrupt"
  then show "load lib s = s" by (rule load_no_file)
next
  assume "fst (add_chunks lib s chunks) = None"
  then have p: "persisted (snd (add_chunks lib s chunks))" by (rule add_chunks_persisted)
  then show "persisted (snd (add_chunks lib s chunks))" .
  from p show "entries (bm25_init lib (index_file (snd (add_chunks lib s chunks))))
           = entries (snd (add_chunks lib s chunks))" by (rule restart_persisted(4))
next
  assume "fst (rebuild_from_store lib s all_chunks) = None"
  then have p: "persisted (snd (rebuild_from_store lib s all_chunks))"
    by (rule rebuild_from_store_persisted)
  then show "persisted (snd (rebuild_from_store lib s all_chunks))" .
  from p show "entries (bm25_init lib (index_file (snd (rebuild_from_store lib s all_chunks))))
           = entries (snd (rebuild_from_store lib s all_chunks))" by (rule restart_persisted(4))
next
  assume "aligned s \<and> persisted s \<and> fst (delete_document lib s d) = None"
  then have p: "persisted (snd (delete_document lib s d))"
    using delete_document_persisted by blast
  then show "persisted (snd (delete_document lib s d))" .
  from p show "entries (bm25_init lib (index_file (snd (delete_document lib s d))))
           = entries (snd (delete_document lib s d))" by (rule restart_persisted(4))
next
  assume a: "aligned s \<and> file_aligned (index_file s)"
  show "aligned (load lib s)" using a load_aligned by blast
  show "aligned (bm25_init lib (index_file s))" using a bm25_init_aligned by blast
  show "file_aligned (index_file (snd (add_chunks lib s chunks)))"
    using a add_chunks_aligned[of s lib chunks]
      file_step_aligned[OF add_chunks_lists(4)[of s lib chunks]] by simp
  show "file_aligned (index_file (snd (delete_document lib s d)))"
    using a delete_document_aligned[of s lib d]
      file_step_aligned[OF delete_document_lists(4)[of s lib d]] by simp
  show "file_aligned (index_file (snd (rebuild_from_store lib s all_chunks)))"
    using a rebuild_from_store_aligned[of lib s all_chunks]
      file_step_aligned[OF rebuild_from_store_lists(4)[of s lib all_chunks]] by simp
next
  assume "reachable lib s"
  then show "aligned s" "file_aligned (index_file s)" using reachable_aligned by blast+
qed

theorem index_sequences_stay_aligned_witness:
  "aligned (bm25_init toy_lib Missing)
   \<and> aligned toy_store
   \<and> chunk_ids toy_store = [''c1'', ''c2'', ''c3'']
   \<and> chunk_texts toy_store = [''alpha'', ''beta'', ''beta'']
   \<and> length (chunk_metadatas toy_store) = 3
   \<and> file_aligned (index_file toy_store)
   \<and> aligned (snd (delete_document toy_lib toy_store ''D''))
   \<and> file_aligned (index_file (snd (delete_document toy_lib toy_store ''D'')))
   \<and> aligned (load toy_lib toy_store)
   \<and> aligned (bm25_init toy_lib (index_file toy_store))
   \<and> reachable toy_lib toy_store
   \<and> fst (add_chunks toy_lib (bm25_init toy_lib Missing) toy_chunks) = None
   \<and> persisted toy_store
   \<and> index_file toy_store
       = Saved [''c1'', ''c2'', ''c3''] [''alpha'', ''beta'', ''beta'']
           (map ch_metadata toy_chunks)
   \<and> chunk_ids (load toy_lib toy_store) = [''c1'', ''c2'', ''c3'']
   \<and> chunk_texts (load toy_lib toy_store) = [''alpha'', ''beta'', ''beta'']
   \<and> chunk_metadatas (load toy_lib toy_store) = map ch_metadata toy_chunks
   \<and> entries (bm25_init toy_lib (index_file toy_store)) = entries toy_store
   \<and> entries toy_store = map (\<lambda>c. (ch_id c, ch_text c, ch_metadata c)) toy_chunks
   \<and> fst (delete_document toy_lib toy_store ''D'') = None
   \<and> entries (bm25_init toy_lib (index_file (snd (delete_document toy_lib toy_store ''D''))))
       = [(''c2'', ''beta'', ch_metadata (mk_chunk ''c2'' ''E'' ''beta''))]"
proof -
  let ?s0 = "bm25_init toy_lib Missing"
  let ?ms = "map ch_metadata toy_chunks"
  note T0 = index_sequences_stay_aligned[of toy_lib ?s0 toy_chunks "''D''" "[]" "[]" "[]" "[]"]
  note T1 = index_sequences_stay_aligned[of toy_lib toy_store "[]" "''D''" "[]"
      "[''c1'', ''c2'', ''c3'']" "[''alpha'', ''beta'', ''beta'']" ?ms]
  from T0 have a0: "aligned ?s0" and e0: "entries ?s0 = []" by blast+
  with T0 have a1: "aligned toy_store" unfolding toy_store_def by blast
  have r0: "reachable toy_lib ?s0" by (rule reachable.fresh)
  then have r1: "reachable toy_lib toy_store" unfolding toy_store_def by (rule reachable.added)
  with T1 have f1: "file_aligned (index_file toy_store)" by blast
  from T1 a1 f1 have rest: "aligned (snd (delete_document toy_lib toy_store ''D''))"
    "file_aligned (index_file (snd (delete_document toy_lib toy_store ''D'')))"
    "aligned (load toy_lib toy_store)" "aligned (bm25_init toy_lib (index_file toy_store))"
    by blast+
  have ids: "chunk_ids toy_store = [''c1'', ''c2'', ''c3'']"
    "chunk_texts toy_store = [''alpha'', ''beta'', ''beta'']"
    "length (chunk_metadatas toy_store) = 3"
    by (simp_all add: toy_store_def toy_chunks_def add_chunks_lists bm25_init_def load_def
        mk_chunk_def)
  have ms: "chunk_metadatas toy_store = ?ms"
    by (simp add: toy_store_def add_chunks_lists bm25_init_def load_def)
  have ok: "fst (add_chunks toy_lib ?s0 toy_chunks) = None" by code_simp
  with T0 have p1: "persisted toy_store"
    and er: "entries (bm25_init toy_lib (index_file toy_store)) = entries toy_store"
    unfolding toy_store_def by blast+
  from p1 have fl2: "index_file toy_store
       = Saved [''c1'', ''c2'', ''c3''] [''alpha'', ''beta'', ''beta''] ?ms"
    unfolding persisted_def ids(1,2) ms .
  with T1 have ld: "chunk_ids (load toy_lib toy_store) = [''c1'', ''c2'', ''c3'']"
    "chunk_texts (load toy_lib toy_store) = [''alpha'', ''beta'', ''beta'']"
    "chunk_metadatas (load toy_lib toy_store) = ?ms" by blast+
  from T0 a0 e0 have ent:
    "entries toy_store = map (\<lambda>c. (ch_id c, ch_text c, ch_metadata c)) toy_chunks"
    unfolding toy_store_def by simp
  have dok: "fst (delete_document toy_lib toy_store ''D'') = None" by code_simp
  with T1 a1 p1 have "entries (bm25_init toy_lib (index_file (snd (delete_document toy_lib toy_store ''D''))))
      = entries (snd (delete_document toy_lib toy_store ''D''))" by blast
  also from T1 a1 have "\<dots> = [e \<leftarrow> entries toy_store. \<not> of_document ''D'' (snd (snd e))]"
    by blast
  also have "\<dots> = [(''c2'', ''beta'', ch_metadata (mk_chunk ''c2'' ''E'' ''beta''))]"
    unfolding ent by (simp add: toy_chunks_def mk_chunk_def of_document_def)
  finally have dr: "entries (bm25_init toy_lib (index_file (snd (delete_document toy_lib toy_store ''D''))))
       = [(''c2'', ''beta'', ch_metadata (mk_chunk ''c2'' ''E'' ''beta''))]" .
  from a0 a1 ids f1 rest r1 ok p1 fl2 ld er ent dok dr show ?thesis by blast
qed



section \<open>Properties of the orchestrator and of answer generation\<close>

lemma fusion_Nil: "reciprocal_rank_fusion fl st [] k_arg = Inr []"
  by (simp add: reciprocal_rank_fusion_def sorted_ids_desc_def)

text \<open>
  Claim C8. For \<open>top_k \<ge> 1\<close>, whatever the orchestrator returns has at most \<open>top_k\<close>
  entries, and it issues no call but the semantic and the lexical fetch with the query,
  the collection filter and \<open>fetch_k = max(top_k * 3, 15)\<close>: the semantic fetch
  first, and the lexical fetch when the semantic one has returned; an exception of
  either fetch is the orchestrator's. When both fetches return, two empty lists give
  the empty list and no error, whatever the configuration; otherwise the non-empty lists, and only those, are
  fused with the configured \<open>rrf_k\<close>: when fusion returns, the result is the fused list
  cut to its first \<open>top_k\<close> entries, and when fusion raises, the orchestrator raises the
  same. Fusion returns whenever \<open>rrf_safe\<close> holds of the configured \<open>rrf_k\<close> and the
  two lists, as it does for the default 60 and lists of fewer than \<open>2^64\<close> entries.
\<close>

theorem hybrid_search_at_most_top_k:
  "(1 \<le> top_k
      \<and> snd (hybrid_search fl st vector_search lexical_search q coll top_k) = Inr out \<longrightarrow>
        int (length out) \<le> top_k)
   \<and> set (fst (hybrid_search fl st vector_search lexical_search q coll top_k))
        \<subseteq> {SemanticSearch q coll (max (top_k * 3) 15), LexicalSearch q coll (max (top_k * 3) 15)}
   \<and> (vector_search q coll (max (top_k * 3) 15) = Inr sem_hits
      \<and> lexical_search q coll (max (top_k * 3) 15) = Inr lex_hits \<longrightarrow>
        fst (hybrid_search fl st vector_search lexical_search q coll top_k)
          = [SemanticSearch q coll (max (top_k * 3) 15), LexicalSearch q coll (max (top_k * 3) 15)]
      \<and> (sem_hits = [] \<and> lex_hits = [] \<longrightarrow>
            snd (hybrid_search fl st vector_search lexical_search q coll top_k) = Inr [])
      \<and> (1 \<le> top_k
          \<and> reciprocal_rank_fusion fl st [l \<leftarrow> [sem_hits, lex_hits]. l \<noteq> []] (Some (rrf_k st))
              = Inr fused \<longrightarrow>
            snd (hybrid_search fl st vector_search lexical_search q coll top_k)
              = Inr (take (nat top_k) fused))
      \<and> (\<not> (sem_hits = [] \<and> lex_hits = [])
          \<and> reciprocal_rank_fusion fl st [l \<leftarrow> [sem_hits, lex_hits]. l \<noteq> []] (Some (rrf_k st))
              = Inl e \<longrightarrow>
            snd (hybrid_search fl st vector_search lexical_search q coll top_k) = Inl e)
      \<and> (rrf_safe (rrf_k st) [sem_hits, lex_hits] \<longrightarrow>
            (\<exists>fused'. reciprocal_rank_fusion fl st [l \<leftarrow> [sem_hits, lex_hits]. l \<noteq> []]
                        (Some (rrf_k st)) = Inr fused')))
   \<and> (rrf_k st = 60 \<and> int (length sem_hits) < 2 ^ 64 - 60 \<and> int (length lex_hits) < 2 ^ 64 - 60 \<longrightarrow>
        rrf_safe (rrf_k st) [sem_hits, lex_hits])
   \<and> (vector_search q coll (max (top_k * 3) 15) = Inr sem_hits \<longrightarrow>
        fst (hybrid_search fl st vector_search lexical_search q coll top_k)
          = [SemanticSearch q coll (max (top_k * 3) 15), LexicalSearch q coll (max (top_k * 3) 15)])
   \<and> (vector_search q coll (max (top_k * 3) 15) = Inl e \<longrightarrow>
        hybrid_search fl st vector_search lexical_search q coll top_k
          = ([SemanticSearch q coll (max (top_k * 3) 15)], Inl e))
   \<and> (vector_search q coll (max (top_k * 3) 15) = Inr sem_hits
      \<and> lexical_search q coll (max (top_k * 3) 15) = Inl e \<longrightarrow>
        snd (hybrid_search fl st vector_search lexical_search q coll top_k) = Inl e)"
proof (intro conjI impI)
  let ?r = "hybrid_search fl st vector_search lexical_search q coll top_k"
  show "fst ?r
      = [SemanticSearch q coll (max (top_k * 3) 15), LexicalSearch q coll (max (top_k * 3) 15)]"
    if "vector_search q coll (max (top_k * 3) 15) = Inr sem_hits"
    using that by (simp add: hybrid_search_def Let_def split: sum.splits)
  show "?r = ([SemanticSearch q coll (max (top_k * 3) 15)], Inl e)"
    if "vector_search q coll (max (top_k * 3) 15) = Inl e"
    using that by (simp add: hybrid_search_def Let_def)
  show "snd ?r = Inl e"
    if "vector_search q coll (max (top_k * 3) 15) = Inr sem_hits
      \<and> lexical_search q coll (max (top_k * 3) 15) = Inl e"
    using that by (simp add: hybrid_search_def Let_def)
  show "set (fst ?r)
        \<subseteq> {SemanticSearch q coll (max (top_k * 3) 15), LexicalSearch q coll (max (top_k * 3) 15)}"
    by (auto simp: hybrid_search_def Let_def split: sum.splits)
next
  let ?r = "hybrid_search fl st vector_search lexical_search q coll top_k"
  assume h: "1 \<le> top_k \<and> snd ?r = Inr out"
  have len: "int (length (slice_to xs top_k)) \<le> top_k" for xs :: "ranked list"
  proof -
    from h have top: "1 \<le> top_k" by simp
    have "length (take (nat top_k) xs) \<le> nat top_k" by simp
    with top have "int (length (take (nat top_k) xs)) \<le> top_k" by linarith
    moreover from top have "slice_to xs top_k = take (nat top_k) xs" by (simp add: slice_to_def)
    ultimately show ?thesis by simp
  qed
  from h have "out = [] \<or> (\<exists>xs. out = slice_to xs top_k)"
    by (auto simp: hybrid_search_def Let_def split: sum.splits if_splits)
  with h len show "int (length out) \<le> top_k" by auto
next
  let ?r = "hybrid_search fl st vector_search lexical_search q coll top_k"
  assume h: "vector_search q coll (max (top_k * 3) 15) = Inr sem_hits
      \<and> lexical_search q coll (max (top_k * 3) 15) = Inr lex_hits"
  let ?ls = "[l \<leftarrow> [sem_hits, lex_hits]. l \<noteq> []]"
  have nk: "reciprocal_rank_fusion fl st ?ls None = reciprocal_rank_fusion fl st ?ls (Some (rrf_k st))"
    by (simp add: reciprocal_rank_fusion_def)
  from h show "fst ?r
      = [SemanticSearch q coll (max (top_k * 3) 15), LexicalSearch q coll (max (top_k * 3) 15)]"
    by (simp add: hybrid_search_def Let_def)
  show "snd ?r = Inr []" if "sem_hits = [] \<and> lex_hits = []"
    using h that by (simp add: hybrid_search_def Let_def)
  show "snd ?r = Inr (take (nat top_k) fused)"
    if f: "1 \<le> top_k \<and> reciprocal_rank_fusion fl st ?ls (Some (rrf_k st)) = Inr fused"
  proof (cases "sem_hits = [] \<and> lex_hits = []")
    case True
    with f have "fused = []" by (simp add: fusion_Nil)
    with True h show ?thesis by (simp add: hybrid_search_def Let_def)
  next
    case False
    from f have "slice_to fused top_k = take (nat top_k) fused" by (simp add: slice_to_def)
    with False h f nk show ?thesis by (auto simp: hybrid_search_def Let_def)
  qed
  show "snd ?r = Inl e"
    if "\<not> (sem_hits = [] \<and> lex_hits = [])
          \<and> reciprocal_rank_fusion fl st ?ls (Some (rrf_k st)) = Inl e"
    using h that nk by (auto simp: hybrid_search_def Let_def)
  show "\<exists>fused'. reciprocal_rank_fusion fl st ?ls (Some (rrf_k st)) = Inr fused'"
    if "rrf_safe (rrf_k st) [sem_hits, lex_hits]"
  proof -
    from that have "rrf_safe (rrf_k st) ?ls" by (auto simp: rrf_safe_def)
    from fusion_char[OF this, of fl st] show ?thesis by blast
  qed
next
  assume a: "rrf_k st = 60 \<and> int (length sem_hits) < 2 ^ 64 - 60
      \<and> int (length lex_hits) < 2 ^ 64 - 60"
  have "(2 :: int) ^ 64 \<le> float_overflow" by (simp add: float_overflow_def)
  with a have "\<forall>l \<in> set [sem_hits, lex_hits]. rrf_k st + int (length l) < float_overflow"
    by auto
  moreover from a have "0 \<le> rrf_k st" by simp
  ultimately show "rrf_safe (rrf_k st) [sem_hits, lex_hits]" by (rule rrf_safe_nonneg[rotated])
qed

theorem hybrid_search_at_most_top_k_witness:
  "(1 :: int) \<le> 1 \<and> rrf_k default_settings = 60
   \<and> const_fetcher [mk_ranked ''a'' ''x'' [] 1, mk_ranked ''b'' ''y'' [] 0.5] ''q'' None
        (max (1 * 3) 15)
      = Inr [mk_ranked ''a'' ''x'' [] 1, mk_ranked ''b'' ''y'' [] 0.5]
   \<and> const_fetcher [mk_ranked ''b'' ''y'' [] 1] ''q'' None (max (1 * 3) 15)
      = Inr [mk_ranked ''b'' ''y'' [] 1]
   \<and> rrf_safe (rrf_k default_settings)
        [[mk_ranked ''a'' ''x'' [] 1, mk_ranked ''b'' ''y'' [] 0.5], [mk_ranked ''b'' ''y'' [] 1]]
   \<and> hybrid_search exact_floats default_settings
        (const_fetcher [mk_ranked ''a'' ''x'' [] 1, mk_ranked ''b'' ''y'' [] 0.5])
        (const_fetcher [mk_ranked ''b'' ''y'' [] 1]) ''q'' None 1
      = ([SemanticSearch ''q'' None 15, LexicalSearch ''q'' None 15],
         Inr [(mk_ranked ''b'' ''y'' [] 0.5)\<lparr>rrf_score := Some (1 / 62 + 1 / 61)\<rparr>])
   \<and> int (length [(mk_ranked ''b'' ''y'' [] 0.5)\<lparr>rrf_score := Some (1 / 62 + 1 / 61)\<rparr>]) \<le> 1
   \<and> const_fetcher [] ''q'' None (max (1 * 3) 15) = Inr []
   \<and> snd (hybrid_search exact_floats (default_settings\<lparr>rrf_k := - 1\<rparr>)
            (const_fetcher []) (const_fetcher []) ''q'' None 1)
      = Inr []
   \<and> reciprocal_rank_fusion exact_floats (default_settings\<lparr>rrf_k := - 1\<rparr>)
        [l \<leftarrow> [[mk_ranked ''a'' ''x'' [] 1, mk_ranked ''b'' ''y'' [] 0.5], [mk_ranked ''b'' ''y'' [] 1]].
           l \<noteq> []] (Some (rrf_k (default_settings\<lparr>rrf_k := - 1\<rparr>)))
      = Inl ZeroDivisionError
   \<and> snd (hybrid_search exact_floats (default_settings\<lparr>rrf_k := - 1\<rparr>)
        (const_fetcher [mk_ranked ''a'' ''x'' [] 1, mk_ranked ''b'' ''y'' [] 0.5])
        (const_fetcher [mk_ranked ''b'' ''y'' [] 1]) ''q'' None 1)
      = Inl ZeroDivisionError"
proof -
  let ?a = "mk_ranked ''a'' ''x'' [] 1" and ?b = "mk_ranked ''b'' ''y'' [] 0.5"
    and ?b' = "mk_ranked ''b'' ''y'' [] 1"
  let ?bad = "default_settings\<lparr>rrf_k := - 1\<rparr>"
  have k: "(1 :: int) \<le> 1" by simp
  have k60: "rrf_k default_settings = 60" by (simp add: default_settings_def)
  have s: "const_fetcher [?a, ?b] ''q'' None (max (1 * 3) 15) = Inr [?a, ?b]"
    by (simp add: const_fetcher_def slice_to_def)
  have l: "const_fetcher [?b'] ''q'' None (max (1 * 3) 15) = Inr [?b']"
    by (simp add: const_fetcher_def slice_to_def)
  have e: "const_fetcher [] ''q'' None (max (1 * 3) 15) = Inr []"
    by (simp add: const_fetcher_def slice_to_def)
  have no: "\<not> float_overflow \<le> 61" "\<not> float_overflow \<le> 62"
    by (simp_all add: float_overflow_def)
  have fz: "reciprocal_rank_fusion exact_floats default_settings [[?a, ?b], [?b']] (Some 60)
      = Inr [?b\<lparr>rrf_score := Some (1 / 62 + 1 / 61)\<rparr>, ?a\<lparr>rrf_score := Some (1 / 61)\<rparr>]"
    using no by (simp add: reciprocal_rank_fusion_def sorted_ids_desc_def mk_ranked_def Let_def
        exact_floats_def)
  have fb: "reciprocal_rank_fusion exact_floats ?bad [l \<leftarrow> [[?a, ?b], [?b']]. l \<noteq> []]
      (Some (rrf_k ?bad)) = Inl ZeroDivisionError"
    by (simp add: reciprocal_rank_fusion_def mk_ranked_def float_overflow_def)
  note T1 = hybrid_search_at_most_top_k[of 1 exact_floats default_settings
      "const_fetcher [?a, ?b]" "const_fetcher [?b']" "''q''" None
      "[?b\<lparr>rrf_score := Some (1 / 62 + 1 / 61)\<rparr>]" "[?a, ?b]" "[?b']"
      "[?b\<lparr>rrf_score := Some (1 / 62 + 1 / 61)\<rparr>, ?a\<lparr>rrf_score := Some (1 / 61)\<rparr>]"]
  note T2 = hybrid_search_at_most_top_k[of 1 exact_floats ?bad "const_fetcher []" "const_fetcher []"
      "''q''" None "[]" "[]" "[]"]
  note T3 = hybrid_search_at_most_top_k[of 1 exact_floats ?bad
      "const_fetcher [?a, ?b]" "const_fetcher [?b']" "''q''" None "[]" "[?a, ?b]" "[?b']" "[]"
      ZeroDivisionError]
  have len: "int (length [?a, ?b]) < 2 ^ 64 - 60" "int (length [?b']) < 2 ^ 64 - 60" by simp_all
  from T1 k60 len have safe: "rrf_safe (rrf_k default_settings) [[?a, ?b], [?b']]" by blast
  from fz k60 have fz': "reciprocal_rank_fusion exact_floats default_settings
      [l \<leftarrow> [[?a, ?b], [?b']]. l \<noteq> []] (Some (rrf_k default_settings))
      = Inr [?b\<lparr>rrf_score := Some (1 / 62 + 1 / 61)\<rparr>, ?a\<lparr>rrf_score := Some (1 / 61)\<rparr>]"
    by simp
  from T1 k s l fz' have
    c: "fst (hybrid_search exact_floats default_settings (const_fetcher [?a, ?b])
              (const_fetcher [?b']) ''q'' None 1)
        = [SemanticSearch ''q'' None (max (1 * 3) 15), LexicalSearch ''q'' None (max (1 * 3) 15)]"
    and r: "snd (hybrid_search exact_floats default_settings (const_fetcher [?a, ?b])
              (const_fetcher [?b']) ''q'' None 1)
        = Inr (take (nat 1)
            [?b\<lparr>rrf_score := Some (1 / 62 + 1 / 61)\<rparr>, ?a\<lparr>rrf_score := Some (1 / 61)\<rparr>])"
    by blast+
  from c r have full: "hybrid_search exact_floats default_settings (const_fetcher [?a, ?b])
        (const_fetcher [?b']) ''q'' None 1
      = ([SemanticSearch ''q'' None 15, LexicalSearch ''q'' None 15],
         Inr [?b\<lparr>rrf_score := Some (1 / 62 + 1 / 61)\<rparr>])"
    by (simp add: prod_eq_iff)
  then have "snd (hybrid_search exact_floats default_settings (const_fetcher [?a, ?b])
        (const_fetcher [?b']) ''q'' None 1) = Inr [?b\<lparr>rrf_score := Some (1 / 62 + 1 / 61)\<rparr>]"
    by simp
  with T1 k have bound: "int (length [?b\<lparr>rrf_score := Some (1 / 62 + 1 / 61)\<rparr>]) \<le> 1" by blast
  from T2 e have z: "snd (hybrid_search exact_floats ?bad (const_fetcher []) (const_fetcher [])
      ''q'' None 1) = Inr []" by blast
  have ne: "\<not> ([?a, ?b] = [] \<and> [?b'] = [])" by simp
  from T3 s l ne fb have bad: "snd (hybrid_search exact_floats ?bad (const_fetcher [?a, ?b])
        (const_fetcher [?b']) ''q'' None 1) = Inl ZeroDivisionError" by blast
  show ?thesis using k k60 s l safe full bound e z fb bad by simp
qed

text \<open>
  Claim C9. For a status other than \<open>insufficient\<close>: when the call to the generation
  collaborator fails, \<open>generate\<close> raises nothing and returns the explicit error answer
  (\<^verbatim>\<open>Error al conectar con el LLM\<close>, the provider, and the first 100 characters of the
  failure's text) with the citations extracted from the context chunks; when the call
  succeeds it returns the collaborator's answer with the same citations: for every
  collaborator the citations are \<open>extract_citations\<close> of the chunks, one per chunk.
\<close>

theorem generate_llm_failure_keeps_citations:
  "(crag_status \<noteq> ''insufficient''
      \<and> (if llm_provider st = ''openai'' then call_openai client else call_ollama client)
           [(''system'', SYSTEM_PROMPT), (''user'', user_message (build_context chunks) question)]
          = Inl exc_text \<longrightarrow>
        generate st client py_int question chunks crag_status
          = (llm_error_answer (llm_provider st) exc_text, extract_citations py_int chunks))
   \<and> (crag_status \<noteq> ''insufficient''
      \<and> (if llm_provider st = ''openai'' then call_openai client else call_ollama client)
           [(''system'', SYSTEM_PROMPT), (''user'', user_message (build_context chunks) question)]
          = Inr answer \<longrightarrow>
        generate st client py_int question chunks crag_status
          = (answer, extract_citations py_int chunks))
   \<and> (crag_status \<noteq> ''insufficient'' \<longrightarrow>
        snd (generate st client py_int question chunks crag_status)
          = snd (generate st client' py_int question chunks crag_status)
      \<and> length (snd (generate st client py_int question chunks crag_status)) = length chunks)
   \<and> take 30 (llm_error_answer (llm_provider st) exc_text) = ''Error al conectar con el LLM (''"
proof (intro conjI impI)
  assume "crag_status \<noteq> ''insufficient''
      \<and> (if llm_provider st = ''openai'' then call_openai client else call_ollama client)
           [(''system'', SYSTEM_PROMPT), (''user'', user_message (build_context chunks) question)]
          = Inl exc_text"
  then show "generate st client py_int question chunks crag_status
          = (llm_error_answer (llm_provider st) exc_text, extract_citations py_int chunks)"
    by (auto simp: generate_def Let_def)
next
  assume "crag_status \<noteq> ''insufficient''
      \<and> (if llm_provider st = ''openai'' then call_openai client else call_ollama client)
           [(''system'', SYSTEM_PROMPT), (''user'', user_message (build_context chunks) question)]
          = Inr answer"
  then show "generate st client py_int question chunks crag_status
          = (answer, extract_citations py_int chunks)"
    by (auto simp: generate_def Let_def)
next
  assume "crag_status \<noteq> ''insufficient''"
  then show "snd (generate st client py_int question chunks crag_status)
          = snd (generate st client' py_int question chunks crag_status)"
    and "length (snd (generate st client py_int question chunks crag_status)) = length chunks"
    by (simp_all add: generate_def Let_def extract_citations_def)
next
  show "take 30 (llm_error_answer (llm_provider st) exc_text) = ''Error al conectar con el LLM (''"
    by (simp add: llm_error_answer_def)
qed

theorem generate_llm_failure_keeps_citations_witness:
  "''grounded'' \<noteq> ''insufficient''
   \<and> call_ollama (failing_client ''timed out'')
        [(''system'', SYSTEM_PROMPT),
         (''user'', user_message
            (build_context [(mk_ranked ''1'' ''texto'' [(''document_id'', ''D''), (''page_number'', ''3'')] 1)
                              \<lparr>relevance := Some 0.55\<rparr>]) ''q'')]
      = Inl ''timed out''
   \<and> generate default_settings (failing_client ''timed out'') (\<lambda>s. if s = ''3'' then Some 3 else None) ''q''
        [(mk_ranked ''1'' ''texto'' [(''document_id'', ''D''), (''page_number'', ''3'')] 1)
           \<lparr>relevance := Some 0.55\<rparr>] ''grounded''
      = (llm_error_answer ''ollama'' ''timed out'',
         [\<lparr> cit_document_id = ''D'', cit_filename = ''Documento desconocido'',
             cit_chunk_text = ''texto'', cit_page_number = Some 3,
             cit_relevance_score = 0.55 \<rparr>])
   \<and> generate default_settings (answering_client ''ok'') (\<lambda>s. if s = ''3'' then Some 3 else None) ''q''
        [(mk_ranked ''1'' ''texto'' [(''document_id'', ''D''), (''page_number'', ''3'')] 1)
           \<lparr>relevance := Some 0.55\<rparr>] ''grounded''
      = (''ok'',
         [\<lparr> cit_document_id = ''D'', cit_filename = ''Documento desconocido'',
             cit_chunk_text = ''texto'', cit_page_number = Some 3,
             cit_relevance_score = 0.55 \<rparr>])"
proof -
  let ?c = "(mk_ranked ''1'' ''texto'' [(''document_id'', ''D''), (''page_number'', ''3'')] 1)
              \<lparr>relevance := Some 0.55\<rparr>"
  let ?pi = "\<lambda>s. if s = ''3'' then Some (3 :: int) else None"
  let ?m = "[(''system'', SYSTEM_PROMPT), (''user'', user_message (build_context [?c]) ''q'')]"
  let ?cit = "[\<lparr> cit_document_id = ''D'', cit_filename = ''Documento desconocido'',
             cit_chunk_text = ''texto'', cit_page_number = Some 3,
             cit_relevance_score = 0.55 \<rparr>]"
  have ne: "''grounded'' \<noteq> ''insufficient''" by simp
  have prov: "llm_provider default_settings = ''ollama''" by (simp add: default_settings_def)
  have fl: "call_ollama (failing_client ''timed out'') ?m = Inl ''timed out''"
    by (simp add: failing_client_def)
  have ok: "call_ollama (answering_client ''ok'') ?m = Inr ''ok''"
    by (simp add: answering_client_def)
  have rnd: "py_round4 (11 / 20) = 11 / 20"
    by (simp add: py_round4_def round_half_even_def Let_def)
  have cit: "extract_citations ?pi [?c] = ?cit"
    by (simp add: extract_citations_def citation_of_def mk_ranked_def dict_get_def slice_to_def
        rnd Let_def)
  note T1 = generate_llm_failure_keeps_citations[of "''grounded''" default_settings
      "failing_client ''timed out''" "[?c]" "''q''" "''timed out''" ?pi]
  note T2 = generate_llm_failure_keeps_citations[of "''grounded''" default_settings
      "answering_client ''ok''" "[?c]" "''q''" "''timed out''" ?pi "''ok''"]
  from T1 ne fl prov
  have g1: "generate default_settings (failing_client ''timed out'') ?pi ''q'' [?c] ''grounded''
      = (llm_error_answer ''ollama'' ''timed out'', extract_citations ?pi [?c])"
    by simp
  from T2 ne ok prov
  have g2: "generate default_settings (answering_client ''ok'') ?pi ''q'' [?c] ''grounded''
      = (''ok'', extract_citations ?pi [?c])"
    by simp
  from ne fl g1 g2 show ?thesis unfolding cit by blast
qed

end
